theory Spec2Isabelle
  imports Complex_Main "HOL-Library.AList"
begin

section \<open>Dynamic values: the decoded configuration tree\<close>

text \<open>
  The decoders produce Go values of type \<^verbatim>\<open>interface{}\<close>: \<^verbatim>\<open>nil\<close>, \<^verbatim>\<open>bool\<close>,
  \<^verbatim>\<open>float64\<close> (JSON numbers), \<^verbatim>\<open>int\<close> (YAML and TOML integers, and the values a caller
  hands to \<^verbatim>\<open>Set\<close>), \<^verbatim>\<open>string\<close>, \<^verbatim>\<open>[]interface{}\<close> and \<^verbatim>\<open>map[string]interface{}\<close>.
  A \<^verbatim>\<open>float64\<close> is represented by the rational number it denotes: the program never
  computes with floats, it only converts them.  A map is an association list with
  \<^verbatim>\<open>MapKeys\<close> read in list order (Go leaves that order unspecified).
  \<^verbatim>\<open>reflect.ValueOf(nil)\<close> is the invalid \<^verbatim>\<open>reflect.Value\<close>, so \<open>DNull\<close> stands both for a
  JSON null and for the zero \<^verbatim>\<open>reflect.Value\<close>.
\<close>

datatype scalar = SBool bool | SInt int | SFloat rat | SStr string

datatype dyn =
    DNull
  | DScalar scalar
  | DSeq "dyn list"
  | DMap "(string \<times> dyn) list"

abbreviation DBool :: "bool \<Rightarrow> dyn" where "DBool b \<equiv> DScalar (SBool b)"
abbreviation DInt :: "int \<Rightarrow> dyn" where "DInt i \<equiv> DScalar (SInt i)"
abbreviation DFloat :: "rat \<Rightarrow> dyn" where "DFloat q \<equiv> DScalar (SFloat q)"
abbreviation DStr :: "string \<Rightarrow> dyn" where "DStr s \<equiv> DScalar (SStr s)"

text \<open>\<^verbatim>\<open>reflect.Kind\<close>, restricted to the kinds of the modelled values.\<close>

datatype kind = KInvalid | KBool | KInt | KFloat64 | KString | KArray | KSlice | KMap | KPtr
  | KStruct | KInterface | KFunc

fun scalarKind :: "scalar \<Rightarrow> kind" where
  "scalarKind (SBool b) = KBool"
| "scalarKind (SInt i) = KInt"
| "scalarKind (SFloat q) = KFloat64"
| "scalarKind (SStr s) = KString"

fun Kind :: "dyn \<Rightarrow> kind" where
  "Kind DNull = KInvalid"
| "Kind (DScalar s) = scalarKind s"
| "Kind (DSeq xs) = KSlice"
| "Kind (DMap m) = KMap"

definition IsValid :: "dyn \<Rightarrow> bool" where
  "IsValid v = (v \<noteq> DNull)"

definition MapKeys :: "(string \<times> dyn) list \<Rightarrow> string list" where
  "MapKeys m = map fst m"

text \<open>
  \<^verbatim>\<open>mapIndex\<close> (config.go 332-338): \<^verbatim>\<open>MapIndex\<close> followed by \<^verbatim>\<open>Elem\<close> on the interface
  element.  A missing key and a key bound to \<^verbatim>\<open>nil\<close> both give the invalid value.
\<close>

definition mapIndex :: "(string \<times> dyn) list \<Rightarrow> string \<Rightarrow> dyn" where
  "mapIndex m k = (case map_of m k of None \<Rightarrow> DNull | Some v \<Rightarrow> v)"

text \<open>
  \<^verbatim>\<open>reflect.Value.SetMapIndex\<close>: "if elem is the zero Value, SetMapIndex deletes the key
  from the map", otherwise the key is bound to the element.
\<close>

definition SetMapIndex :: "(string \<times> dyn) list \<Rightarrow> string \<Rightarrow> dyn \<Rightarrow> (string \<times> dyn) list" where
  "SetMapIndex m k v = (if IsValid v then AList.update k v m else AList.delete k m)"

section \<open>merge (config.go 313-328)\<close>

lemma size_map_of_less:
  "map_of m k = Some v \<Longrightarrow> size v < Suc (size_list (\<lambda>x. Suc (size (snd x))) m)"
  by (induction m) (auto split: if_splits)

lemma size_mapIndex_less [termination_simp]:
  "size (mapIndex m k) < Suc (size_list (\<lambda>x. Suc (size (snd x))) m)"
  by (auto simp: mapIndex_def split: option.splits dest: size_map_of_less)

lemma size_mapIndex_less_prod:
  "size (mapIndex m k) < Suc (size_list (size_prod (\<lambda>x. 0) size) m)"
proof (induction m)
  case Nil
  show ?case by (simp add: mapIndex_def)
next
  case (Cons a m)
  then show ?case by (cases a) (auto simp: mapIndex_def split: option.splits)
qed

text \<open>
  The loop over \<^verbatim>\<open>v2.MapKeys()\<close> is the \<open>fold\<close>; its accumulator is the contents of the
  map \<^verbatim>\<open>v1\<close>, which the Go code updates in place and returns.  This function gives the
  contents of the result for trees that share no map object, as the decoders produce
  them; the store model below keeps the identity of the map objects.
\<close>

fun merge :: "dyn \<Rightarrow> dyn \<Rightarrow> dyn" where
  "merge (DMap m1) (DMap m2) =
     DMap (fold (\<lambda>key m.
             let e1 = mapIndex m key;
                 e2 = mapIndex m2 key;
                 e2' = (if Kind e1 = KMap \<and> Kind e2 = KMap then merge e1 e2 else e2)
             in SetMapIndex m key e2')
           (MapKeys m2) m1)"
| "merge v1 v2 = v2"


text \<open>
  The reference definition, following the words of the specification: if either operand
  is not a Mapping the result is \<open>update\<close>; otherwise the result has the union of the keys,
  a key of both sides is bound to the merge of the two values, and a key of one side
  keeps that side's value.
\<close>

fun merge_ref :: "dyn \<Rightarrow> dyn \<Rightarrow> dyn" where
  "merge_ref (DMap m1) (DMap m2) =
     DMap (map (\<lambda>(k, v1). (k, case map_of m2 k of None \<Rightarrow> v1 | Some v2 \<Rightarrow> merge_ref v1 v2)) m1
           @ filter (\<lambda>(k, v2). map_of m1 k = None) m2)"
| "merge_ref v1 v2 = v2"

subsection \<open>merge on a store\<close>

text \<open>
  A Go map is a reference: \<^verbatim>\<open>v1.SetMapIndex\<close> changes the map object that every holder of
  \<^verbatim>\<open>v1\<close> sees.  To speak about that, the map objects are put in a store, a value refers
  to a map by its address, and \<^verbatim>\<open>merge\<close> passes the store along.  The store may hold a map
  that contains itself, on which the Go function does not return: the recursion takes
  fuel, and \<open>None\<close> means that the fuel ran out.
\<close>

type_synonym addr = nat

datatype rval = RNull | RScalar scalar | RSeq "rval list" | RMap addr

type_synonym store = "addr \<Rightarrow> (string \<times> rval) list"

fun is_map :: "rval \<Rightarrow> bool" where
  "is_map (RMap a) = True"
| "is_map v = False"

definition mapIndexS :: "(string \<times> rval) list \<Rightarrow> string \<Rightarrow> rval" where
  "mapIndexS m k = (case map_of m k of None \<Rightarrow> RNull | Some v \<Rightarrow> v)"

definition SetMapIndexS :: "(string \<times> rval) list \<Rightarrow> string \<Rightarrow> rval \<Rightarrow> (string \<times> rval) list" where
  "SetMapIndexS m k v = (if v \<noteq> RNull then AList.update k v m else AList.delete k m)"

fun merge_store :: "nat \<Rightarrow> store \<Rightarrow> rval \<Rightarrow> rval \<Rightarrow> (store \<times> rval) option"
  and merge_keys :: "nat \<Rightarrow> store \<Rightarrow> addr \<Rightarrow> addr \<Rightarrow> string list \<Rightarrow> store option"
where
  "merge_store 0 s v1 v2 = None"
| "merge_store (Suc n) s (RMap a1) (RMap a2) =
     (case merge_keys n s a1 a2 (map fst (s a2)) of
        None \<Rightarrow> None
      | Some s' \<Rightarrow> Some (s', RMap a1))"
| "merge_store (Suc n) s v1 v2 = Some (s, v2)"
| "merge_keys n s a1 a2 [] = Some s"
| "merge_keys n s a1 a2 (key # keys) =
     (let e1 = mapIndexS (s a1) key;
          e2 = mapIndexS (s a2) key
      in case (if is_map e1 \<and> is_map e2 then merge_store n s e1 e2 else Some (s, e2)) of
           None \<Rightarrow> None
         | Some (s', e2') \<Rightarrow>
             merge_keys n (s'(a1 := SetMapIndexS (s' a1) key e2')) a1 a2 keys)"

text \<open>
  How a value in the store stands for a tree: \<open>foot s v t\<close> is the set of the addresses of
  the map objects that make up \<open>v\<close> when \<open>v\<close>, read in the store \<open>s\<close>, is the tree \<open>t\<close> and
  no map object occurs twice in it (the value is tree-shaped, as a decoded value is);
  it is \<open>None\<close> otherwise.  \<open>mdepth\<close> is the nesting depth of Mappings in Mappings, and
  \<open>distinct_keys\<close> says that no Mapping lists a key twice.
\<close>

fun combine :: "addr set option \<Rightarrow> addr set option \<Rightarrow> addr set option" where
  "combine (Some A) (Some B) = (if A \<inter> B = {} then Some (A \<union> B) else None)"
| "combine x y = None"

fun foot :: "store \<Rightarrow> rval \<Rightarrow> dyn \<Rightarrow> addr set option"
  and footl :: "store \<Rightarrow> rval list \<Rightarrow> dyn list \<Rightarrow> addr set option"
  and footm :: "store \<Rightarrow> (string \<times> rval) list \<Rightarrow> (string \<times> dyn) list \<Rightarrow> addr set option"
where
  "foot s RNull DNull = Some {}"
| "foot s (RScalar x) (DScalar y) = (if x = y then Some {} else None)"
| "foot s (RSeq vs) (DSeq ts) = footl s vs ts"
| "foot s (RMap a) (DMap m) =
     (case footm s (s a) m of
        None \<Rightarrow> None
      | Some B \<Rightarrow> if a \<in> B then None else Some (insert a B))"
| "foot s v t = None"
| "footl s [] [] = Some {}"
| "footl s (v # vs) (t # ts) = combine (foot s v t) (footl s vs ts)"
| "footl s vs ts = None"
| "footm s [] [] = Some {}"
| "footm s ((k, v) # kv) ((k', t) # m) =
     (if k = k' then combine (foot s v t) (footm s kv m) else None)"
| "footm s kv m = None"

fun mdepth :: "dyn \<Rightarrow> nat" and mdepthm :: "(string \<times> dyn) list \<Rightarrow> nat" where
  "mdepth (DMap m) = Suc (mdepthm m)"
| "mdepth t = 0"
| "mdepthm [] = 0"
| "mdepthm ((k, t) # m) = max (mdepth t) (mdepthm m)"

fun distinct_keys :: "dyn \<Rightarrow> bool" and distinct_keysm :: "(string \<times> dyn) list \<Rightarrow> bool" where
  "distinct_keys (DMap m) = (distinct (map fst m) \<and> distinct_keysm m)"
| "distinct_keys t = True"
| "distinct_keysm [] = True"
| "distinct_keysm ((k, t) # m) = (distinct_keys t \<and> distinct_keysm m)"

text \<open>The two trees of the merge example of the specification, base at address 1, update at 2.\<close>

definition example_store :: store where
  "example_store =
     (\<lambda>a. [])(1 := [(''a'', RMap 3), (''d'', RScalar (SInt 3))],
              3 := [(''b'', RScalar (SInt 1)), (''c'', RScalar (SInt 2))],
              2 := [(''a'', RMap 4), (''d'', RScalar (SInt 30))],
              4 := [(''c'', RScalar (SInt 4)), (''e'', RScalar (SInt 5))])"

section \<open>Dotted paths (config.go 81-112, 175-212, 340-382)\<close>

text \<open>\<^verbatim>\<open>strings.Split(path, ".")\<close> and \<^verbatim>\<open>strings.Join(parts, ".")\<close>.\<close>

fun Split :: "string \<Rightarrow> string list" where
  "Split [] = [[]]"
| "Split (c # cs) =
     (if c = CHR ''.'' then [] # Split cs
      else (case Split cs of [] \<Rightarrow> [[c]] | p # ps \<Rightarrow> (c # p) # ps))"


text \<open>
  \<^verbatim>\<open>strconv.Atoi\<close> on a 64-bit platform: an optional sign, then one or more decimal
  digits; a value outside the range of \<^verbatim>\<open>int\<close> is an error.
\<close>

definition is_digit :: "char \<Rightarrow> bool" where
  "is_digit c = (48 \<le> (of_char c :: nat) \<and> (of_char c :: nat) \<le> 57)"

fun digits_value :: "int \<Rightarrow> string \<Rightarrow> int option" where
  "digits_value n [] = Some n"
| "digits_value n (c # cs) =
     (if is_digit c then digits_value (n * 10 + (of_char c - 48)) cs else None)"

definition Atoi :: "string \<Rightarrow> int option" where
  "Atoi s =
     (let neg = (s \<noteq> [] \<and> hd s = CHR ''-'');
          body = (if s \<noteq> [] \<and> (hd s = CHR ''-'' \<or> hd s = CHR ''+'') then tl s else s)
      in if body = [] then None
         else (case digits_value 0 body of
                 None \<Rightarrow> None
               | Some n \<Rightarrow>
                   let i = (if neg then - n else n)
                   in if - (2 ^ 63) \<le> i \<and> i < 2 ^ 63 then Some i else None))"

text \<open>\<^verbatim>\<open>strconv.Itoa\<close> on a loop index.\<close>

fun Itoa :: "nat \<Rightarrow> string" where
  "Itoa n =
     (if n < 10 then [''0123456789'' ! n] else Itoa (n div 10) @ [''0123456789'' ! (n mod 10)])"

declare Itoa.simps [simp del]

text \<open>
  \<^verbatim>\<open>getElement\<close> (config.go 341-357).  A decoded tree holds slices, never arrays.
\<close>

fun getElement :: "dyn \<Rightarrow> string \<Rightarrow> dyn" where
  "getElement (DMap m) p = mapIndex m p"
| "getElement (DSeq xs) p =
     (case Atoi p of
        Some i \<Rightarrow> if 0 \<le> i \<and> i < int (length xs) then xs ! nat i else DNull
      | None \<Rightarrow> DNull)"
| "getElement v p = DNull"


section \<open>Go types and target values\<close>

text \<open>
  The fragment of Go's types the model covers: \<^verbatim>\<open>bool\<close>, \<^verbatim>\<open>int\<close>, \<^verbatim>\<open>float64\<close>, \<^verbatim>\<open>string\<close>,
  arrays, slices, pointers, string-keyed maps, structs and interfaces.  A struct type
  carries its name, the method set of its pointer type and its fields (name, exported,
  type); an interface type carries its name and its methods.  The sized integer and
  float types, named scalar types, byte slices and embedded fields are left out.
\<close>

datatype gtype =
    TBool | TInt | TFloat64 | TString
  | TArray nat gtype
  | TSlice gtype
  | TPtr gtype
  | TMap gtype
  | TStruct string "string list" "(string \<times> bool \<times> gtype) list"
  | TInterface string "string list"

text \<open>
  A target value.  A slice is its backing array (whose length is the capacity) and its
  length; a pointer owns its pointee (\<open>None\<close> is \<^verbatim>\<open>nil\<close>); a map is \<open>None\<close> when \<^verbatim>\<open>nil\<close>; an
  interface slot holds nothing, a typed value, or a dynamic value stored verbatim.
\<close>

datatype tv =
    VScalar scalar
  | VArray gtype "tv list"
  | VSlice gtype "tv list" nat
  | VPtr gtype "tv option"
  | VMap gtype "(string \<times> tv) list option"
  | VStruct string "string list" "(string \<times> bool \<times> tv) list"
  | VInterface string "string list" "(dyn + tv) option"

fun scalarType :: "scalar \<Rightarrow> gtype" where
  "scalarType (SBool b) = TBool"
| "scalarType (SInt i) = TInt"
| "scalarType (SFloat q) = TFloat64"
| "scalarType (SStr s) = TString"

fun typeOf :: "tv \<Rightarrow> gtype" where
  "typeOf (VScalar s) = scalarType s"
| "typeOf (VArray t xs) = TArray (length xs) t"
| "typeOf (VSlice t xs n) = TSlice t"
| "typeOf (VPtr t p) = TPtr t"
| "typeOf (VMap t m) = TMap t"
| "typeOf (VStruct name ms fs) = TStruct name ms (map (\<lambda>(f, e, v). (f, e, typeOf v)) fs)"
| "typeOf (VInterface name ms c) = TInterface name ms"

text \<open>The dynamic type of a decoded value (\<^verbatim>\<open>v.Type()\<close> on a valid value).\<close>

fun TypeOf :: "dyn \<Rightarrow> gtype" where
  "TypeOf (DScalar s) = scalarType s"
| "TypeOf (DSeq xs) = TSlice (TInterface [] [])"
| "TypeOf (DMap m) = TMap (TInterface [] [])"
| "TypeOf DNull = TInterface [] []"

text \<open>\<^verbatim>\<open>reflect.Zero\<close>.\<close>

fun zero :: "gtype \<Rightarrow> tv" where
  "zero TBool = VScalar (SBool False)"
| "zero TInt = VScalar (SInt 0)"
| "zero TFloat64 = VScalar (SFloat 0)"
| "zero TString = VScalar (SStr [])"
| "zero (TArray n t) = VArray t (replicate n (zero t))"
| "zero (TSlice t) = VSlice t [] 0"
| "zero (TPtr t) = VPtr t None"
| "zero (TMap t) = VMap t None"
| "zero (TStruct name ms fs) = VStruct name ms (map (\<lambda>(f, e, t). (f, e, zero t)) fs)"
| "zero (TInterface name ms) = VInterface name ms None"

fun vKind :: "tv \<Rightarrow> kind" where
  "vKind (VScalar s) = scalarKind s"
| "vKind (VArray t xs) = KArray"
| "vKind (VSlice t xs n) = KSlice"
| "vKind (VPtr t p) = KPtr"
| "vKind (VMap t m) = KMap"
| "vKind (VStruct name ms fs) = KStruct"
| "vKind (VInterface name ms c) = KInterface"

subsection \<open>Conversion (\<^verbatim>\<open>reflect.Type.ConvertibleTo\<close>, \<^verbatim>\<open>reflect.Value.Convert\<close>)\<close>

text \<open>
  Go's conversion rules on the fragment: every type converts to itself and to an
  interface it implements, the numeric types convert to each other, and an integer
  converts to the string holding the UTF-8 encoding of that code point.
\<close>

fun MethodSet :: "gtype \<Rightarrow> string list" where
  "MethodSet (TPtr (TStruct name ms fs)) = ms"
| "MethodSet (TInterface name ms) = ms"
| "MethodSet t = []"

definition Implements :: "gtype \<Rightarrow> string list \<Rightarrow> bool" where
  "Implements t ms = (set ms \<subseteq> set (MethodSet t))"

definition numeric :: "gtype \<Rightarrow> bool" where
  "numeric t = (t = TInt \<or> t = TFloat64)"

fun ConvertibleTo :: "gtype \<Rightarrow> gtype \<Rightarrow> bool" where
  "ConvertibleTo t (TInterface name ms) = Implements t ms"
| "ConvertibleTo TInt TString = True"
| "ConvertibleTo t1 t2 = (t1 = t2 \<or> (numeric t1 \<and> numeric t2))"

text \<open>
  \<^verbatim>\<open>string(rune)\<close>: the UTF-8 encoding of a valid code point, U+FFFD for anything else.
\<close>

definition utf8 :: "int \<Rightarrow> string" where
  "utf8 i =
     (let n = nat i in
      if i < 0 \<or> 1114111 < i \<or> (55296 \<le> i \<and> i \<le> 57343) then
        [char_of (239::nat), char_of (191::nat), char_of (189::nat)]
      else if n < 128 then [char_of n]
      else if n < 2048 then [char_of (192 + n div 64), char_of (128 + n mod 64)]
      else if n < 65536 then
        [char_of (224 + n div 4096), char_of (128 + (n div 64) mod 64), char_of (128 + n mod 64)]
      else
        [char_of (240 + n div 262144), char_of (128 + (n div 4096) mod 64),
         char_of (128 + (n div 64) mod 64), char_of (128 + n mod 64)])"

text \<open>
  A float converts to an integer by truncation towards zero (for a value outside the
  range of \<^verbatim>\<open>int\<close> Go leaves the result to the implementation; the model keeps the
  truncation).
\<close>

definition float_to_int :: "rat \<Rightarrow> int" where
  "float_to_int q = (if 0 \<le> q then \<lfloor>q\<rfloor> else \<lceil>q\<rceil>)"

fun Convert :: "scalar \<Rightarrow> gtype \<Rightarrow> scalar" where
  "Convert (SFloat q) TInt = SInt (float_to_int q)"
| "Convert (SInt i) TFloat64 = SFloat (of_int i)"
| "Convert (SInt i) TString = SStr (utf8 i)"
| "Convert s t = s"

fun ConvertDyn :: "dyn \<Rightarrow> gtype \<Rightarrow> dyn" where
  "ConvertDyn (DScalar s) t = DScalar (Convert s t)"
| "ConvertDyn v t = v"

section \<open>Errors\<close>

text \<open>
  The error values of the package, with the formatted message kept as data:
  \<^item> \<open>GotKind k\<close>: "got k instead of a map, array, or slice";
  \<^item> \<open>NotAnIndex p\<close>: "p is not a valid array or slice index";
  \<^item> \<open>SliceIndexBound p\<close>: "p is out of the slice index bound";
  \<^item> \<open>NoValueFound\<close>: "no configuration value was found";
  \<^item> \<open>FieldNotFound k t\<close>: "field k not found in struct t";
  \<^item> \<open>FieldCannotSet k\<close>: "field k cannot be set";
  \<^item> \<open>MapCannotConfigure t\<close>: "a map cannot be used to configure t";
  \<^item> \<open>CannotConfigure s t\<close>: "s cannot be used to configure t";
  \<^item> \<open>MissingType\<close>: "missing the type element";
  \<^item> \<open>TypeNotString\<close>: "type must be a string";
  \<^item> \<open>TypeUnknown n\<close>: "type "n" is unknown";
  \<^item> \<open>NotImplement s t\<close>: "s does not implement t".

  \<open>Panic\<close> stands for a panic raised inside package \<^verbatim>\<open>reflect\<close>.
\<close>

datatype message =
    GotKind kind
  | NotAnIndex string
  | SliceIndexBound string
  | NoValueFound
  | FieldNotFound string gtype
  | FieldCannotSet string
  | MapCannotConfigure gtype
  | CannotConfigure gtype gtype
  | MissingType
  | TypeNotString
  | TypeUnknown string
  | NotImplement gtype gtype

datatype error =
    ConfigPathError string message
  | ConfigValueError string message
  | ConfigTargetError
  | ProviderError
  | Panic

section \<open>The configuration object\<close>

text \<open>
  A provider as \<^verbatim>\<open>reflect\<close> sees it: a value that is no function, or a function with its
  number of inputs and the values a call returns.
\<close>

datatype provider = NotFunc dyn | Func nat "tv list"

record Config =
  data :: dyn
  types :: "string \<rightharpoonup> provider"

definition New :: Config where
  "New = \<lparr>data = DNull, types = Map.empty\<rparr>"

subsection \<open>Get (config.go 81-112)\<close>

text \<open>The loop over the first \<open>n - 1\<close> parts; \<open>None\<close> is its early return.\<close>

fun descend :: "dyn \<Rightarrow> string list \<Rightarrow> dyn option" where
  "descend d [] = Some d"
| "descend d (p # ps) =
     (let d' = getElement d p in if \<not> IsValid d' then None else descend d' ps)"

definition Get :: "Config \<Rightarrow> string \<Rightarrow> dyn list \<Rightarrow> dyn" where
  "Get c path defaultValue =
     (let d = (if length defaultValue > 0 then defaultValue ! 0 else DNull);
          parts = Split path
      in case descend (data c) (butlast parts) of
           None \<Rightarrow> d
         | Some dat \<Rightarrow>
             let v = getElement dat (last parts)
             in if \<not> IsValid v then d
                else if IsValid d then
                  (if ConvertibleTo (TypeOf v) (TypeOf d) then ConvertDyn v (TypeOf d) else d)
                else v)"

subsection \<open>Set (config.go 175-212, 360-382)\<close>






subsection \<open>SetData (config.go 232-237)\<close>

definition SetData :: "Config \<Rightarrow> dyn list \<Rightarrow> Config" where
  "SetData c ds = c\<lparr>data := fold (\<lambda>d acc. merge acc d) ds DNull\<rparr>"

subsection \<open>Register (configure.go, that is src/unnamed/part_000, 63-70)\<close>

fun providerKind :: "provider \<Rightarrow> kind" where
  "providerKind (NotFunc d) = Kind d"
| "providerKind (Func n outs) = KFunc"

fun NumIn :: "provider \<Rightarrow> nat" where
  "NumIn (Func n outs) = n"
| "NumIn (NotFunc d) = 0"

fun NumOut :: "provider \<Rightarrow> nat" where
  "NumOut (Func n outs) = length outs"
| "NumOut (NotFunc d) = 0"

definition Register :: "Config \<Rightarrow> string \<Rightarrow> provider \<Rightarrow> error + Config" where
  "Register c name provider =
     (if providerKind provider \<noteq> KFunc \<or> NumOut provider \<noteq> 1 then Inl ProviderError
      else Inr (c\<lparr>types := (types c)(name \<mapsto> provider)\<rparr>))"


section \<open>Binding a configuration to a target (configure.go, that is src/unnamed/part_000)\<close>

subsection \<open>indirect (configure.go 300-324)\<close>

text \<open>
  \<^verbatim>\<open>indirect\<close> walks from \<^verbatim>\<open>v\<close> to the value to be written: through an interface that
  holds a non-nil pointer, and through pointers, allocating a zero pointee for a nil
  one.  It returns that inner value together with the way back: the function that puts
  a changed inner value in its place inside \<^verbatim>\<open>v\<close> (the Go code writes through the
  pointers instead).  The first statement of the Go function takes the address of an
  addressable value of a named type; the loop dereferences that pointer at once, so it
  has no effect on the result.
\<close>

fun tdepth :: "gtype \<Rightarrow> nat" where
  "tdepth (TPtr t) = Suc (tdepth t)"
| "tdepth t = 0"

fun vdepth :: "tv \<Rightarrow> nat" where
  "vdepth (VInterface name ms (Some (Inr (VPtr t (Some x))))) = Suc (Suc (vdepth x))"
| "vdepth (VPtr t None) = Suc (tdepth t)"
| "vdepth (VPtr t (Some x)) = Suc (vdepth x)"
| "vdepth v = 0"

lemma vdepth_zero: "vdepth (zero t) = tdepth t"
  by (cases t) simp_all

function (sequential) indirect :: "tv \<Rightarrow> tv \<times> (tv \<Rightarrow> tv)" where
  "indirect (VInterface name ms (Some (Inr (VPtr t (Some x))))) =
     (case indirect x of (y, k) \<Rightarrow> (y, \<lambda>z. VInterface name ms (Some (Inr (VPtr t (Some (k z)))))))"
| "indirect (VPtr t None) =
     (case indirect (zero t) of (y, k) \<Rightarrow> (y, \<lambda>z. VPtr t (Some (k z))))"
| "indirect (VPtr t (Some x)) =
     (case indirect x of (y, k) \<Rightarrow> (y, \<lambda>z. VPtr t (Some (k z))))"
| "indirect v = (v, \<lambda>z. z)"
  by pat_completeness auto
termination
  by (relation "measure vdepth") (auto simp: vdepth_zero)

text \<open>
  The value a provider returns is not addressable.  \<^verbatim>\<open>indirect\<close> on it panics when it
  has to allocate into a nil pointer, and the caller's \<^verbatim>\<open>s.Addr()\<close> panics unless the walk
  went through a pointer.
\<close>

fun indirectObject :: "tv \<Rightarrow> (tv \<times> (tv \<Rightarrow> tv)) option" where
  "indirectObject (VPtr t (Some x)) = Some (indirect (VPtr t (Some x)))"
| "indirectObject (VInterface name ms (Some (Inr (VPtr t (Some x))))) =
     Some (indirect (VInterface name ms (Some (Inr (VPtr t (Some x))))))"
| "indirectObject v = None"

subsection \<open>configureScalar (configure.go 276-298)\<close>

fun NumMethod :: "tv \<Rightarrow> nat" where
  "NumMethod (VInterface name ms c) = length ms"
| "NumMethod v = 0"

text \<open>\<^verbatim>\<open>v.Set(config)\<close> on an interface without methods: the value is stored as it is.\<close>

fun SetDyn :: "tv \<Rightarrow> dyn \<Rightarrow> tv" where
  "SetDyn (VInterface name ms c) config = VInterface name ms (Some (Inl config))"
| "SetDyn v config = v"

text \<open>\<^verbatim>\<open>v.Set(config.Convert(v.Type()))\<close>.\<close>

fun SetConverted :: "tv \<Rightarrow> dyn \<Rightarrow> tv" where
  "SetConverted (VInterface name ms c) config = VInterface name ms (Some (Inl config))"
| "SetConverted v (DScalar s) = VScalar (Convert s (typeOf v))"
| "SetConverted v config = v"

definition configureScalar :: "tv \<Rightarrow> dyn \<Rightarrow> string \<Rightarrow> error + tv" where
  "configureScalar v config path =
     (if \<not> IsValid config then
        (if vKind v = KInterface \<or> vKind v = KPtr \<or> vKind v = KMap \<or> vKind v = KSlice
         then Inr (zero (typeOf v))
         else Inr v)
      else if vKind v = KInterface \<and> NumMethod v = 0 then Inr (SetDyn v config)
      else if ConvertibleTo (TypeOf config) (typeOf v) then Inr (SetConverted v config)
      else Inl (ConfigValueError path (CannotConfigure (TypeOf config) (typeOf v))))"

subsection \<open>configure and its handlers (configure.go 118-274)\<close>

definition typeKey :: string where
  "typeKey = ''type''"

text \<open>\<^verbatim>\<open>builder.Call([]reflect.Value{})[0]\<close>; \<open>None\<close> is the panic of a call with too few arguments.\<close>

fun Call :: "provider \<Rightarrow> tv option" where
  "Call (Func n (object # outs)) = (if n = 0 then Some object else None)"
| "Call p = None"

text \<open>
  In \<^verbatim>\<open>configure\<close>, the test \<^verbatim>\<open>!v.IsValid()\<close> never holds for the value \<^verbatim>\<open>indirect\<close> returns,
  and the loop that unwraps \<^verbatim>\<open>config\<close> out of interfaces and pointers has nothing to do on
  a decoded tree, where \<^verbatim>\<open>mapIndex\<close> and the model's lists already give the elements
  themselves.  The handlers return the target after the bind, or the error.  When the Go code
  returns an error the writes made before it stay in the target; the model reports the
  error only.  The loops are the functions \<open>configureElems\<close> (over the index),
  \<open>configureKeys\<close> (over the keys, for a map target) and \<open>configureFields\<close> (over the
  keys, for a struct target).
\<close>

function (sequential) configure :: "Config \<Rightarrow> tv \<Rightarrow> dyn \<Rightarrow> string \<Rightarrow> error + tv"
  and configureArray :: "Config \<Rightarrow> tv \<Rightarrow> dyn \<Rightarrow> string \<Rightarrow> error + tv"
  and configureElems ::
    "Config \<Rightarrow> tv list \<Rightarrow> dyn list \<Rightarrow> string \<Rightarrow> nat \<Rightarrow> nat \<Rightarrow> error + tv list"
  and configureMap :: "Config \<Rightarrow> tv \<Rightarrow> dyn \<Rightarrow> string \<Rightarrow> error + tv"
  and configureKeys ::
    "Config \<Rightarrow> gtype \<Rightarrow> (string \<times> tv) list \<Rightarrow> (string \<times> dyn) list \<Rightarrow> string list \<Rightarrow> string
      \<Rightarrow> error + (string \<times> tv) list"
  and configureStruct :: "Config \<Rightarrow> tv \<Rightarrow> dyn \<Rightarrow> string \<Rightarrow> error + tv"
  and configureFields ::
    "Config \<Rightarrow> tv \<Rightarrow> (string \<times> dyn) list \<Rightarrow> string list \<Rightarrow> string \<Rightarrow> error + tv"
  and configureInterface :: "Config \<Rightarrow> tv \<Rightarrow> dyn \<Rightarrow> string \<Rightarrow> error + tv"
where
  "configure c v config path =
     (case indirect v of (v', back) \<Rightarrow>
        (case (case config of
                 DSeq cs \<Rightarrow> configureArray c v' config path
               | DMap m \<Rightarrow>
                   (if vKind v' = KInterface then configureInterface c v' config path
                    else if vKind v' = KStruct then configureStruct c v' config path
                    else if vKind v' = KMap then configureMap c v' config path
                    else Inl (ConfigValueError path (MapCannotConfigure (typeOf v'))))
               | _ \<Rightarrow> configureScalar v' config path) of
           Inl err \<Rightarrow> Inl err
         | Inr r \<Rightarrow> Inr (back r)))"

| "configureArray c v config path =
     (case config of
        DSeq cs \<Rightarrow>
          (case v of
             VInterface name ms x \<Rightarrow>
               if ms = [] then Inr (SetDyn v config)
               else Inl (ConfigValueError path (CannotConfigure (TypeOf config) (typeOf v)))
           | VArray t xs \<Rightarrow>
               let n = min (length cs) (length xs) in
               (case configureElems c xs cs path 0 n of
                  Inl err \<Rightarrow> Inl err
                | Inr ys \<Rightarrow> Inr (VArray t (take n ys @ replicate (length ys - n) (zero t))))
           | VSlice t backing len \<Rightarrow>
               let grown = (length backing < length cs);
                   backing' = (if grown
                               then take len backing @ replicate (length cs - len) (zero t)
                               else backing);
                   len' = (if grown then length cs else len);
                   n = min (length cs) (length backing')
               in
               (case configureElems c (take len' backing') cs path 0 n of
                  Inl err \<Rightarrow> Inl err
                | Inr ys \<Rightarrow> Inr (VSlice t (ys @ drop len' backing') (if n < len' then n else len')))
           | _ \<Rightarrow> Inl (ConfigValueError path (CannotConfigure (TypeOf config) (typeOf v))))
      | _ \<Rightarrow> Inl Panic)"

| "configureElems c xs [] path i n = (if i < n then Inl Panic else Inr xs)"
| "configureElems c [] (cf # cs) path i n = (if i < n then Inl Panic else Inr [])"
| "configureElems c (x # xs) (cf # cs) path i n =
     (if i < n then
        (case configure c x cf (path @ ''.'' @ Itoa i) of
           Inl err \<Rightarrow> Inl err
         | Inr y \<Rightarrow>
             (case configureElems c xs cs path (Suc i) n of
                Inl err \<Rightarrow> Inl err
              | Inr ys \<Rightarrow> Inr (y # ys)))
      else Inr (x # xs))"

| "configureMap c v config path =
     (case config of
        DMap m \<Rightarrow>
          (case v of
             VMap t mo \<Rightarrow>
               (case configureKeys c t (case mo of None \<Rightarrow> [] | Some mp \<Rightarrow> mp) m (MapKeys m) path of
                  Inl err \<Rightarrow> Inl err
                | Inr mp' \<Rightarrow> Inr (VMap t (Some mp')))
           | _ \<Rightarrow> Inl Panic)
      | _ \<Rightarrow> Inl Panic)"

| "configureKeys c t mp m [] path = Inr mp"
| "configureKeys c t mp m (k # ks) path =
     (case configure c (zero t) (mapIndex m k) (path @ ''.'' @ k) of
        Inl err \<Rightarrow> Inl err
      | Inr mapElem \<Rightarrow> configureKeys c t (AList.update k mapElem mp) m ks path)"

| "configureStruct c v config path =
     (case config of
        DMap m \<Rightarrow> configureFields c v m (MapKeys m) path
      | _ \<Rightarrow> Inl Panic)"

| "configureFields c v m [] path = Inr v"
| "configureFields c v m (k # ks) path =
     (if k = typeKey then configureFields c v m ks path
      else
        (case v of
           VStruct name ms fs \<Rightarrow>
             (case map_of fs k of
                None \<Rightarrow> Inl (ConfigValueError path (FieldNotFound k (typeOf v)))
              | Some (exported, field) \<Rightarrow>
                  if \<not> exported then Inl (ConfigValueError path (FieldCannotSet k))
                  else
                    (case field of
                       VPtr t p \<Rightarrow>
                         (case configure c (case p of None \<Rightarrow> zero t | Some x \<Rightarrow> x)
                                 (mapIndex m k) (path @ ''.'' @ k) of
                            Inl err \<Rightarrow> Inl err
                          | Inr x' \<Rightarrow>
                              configureFields c
                                (VStruct name ms (AList.update k (exported, VPtr t (Some x')) fs))
                                m ks path)
                     | _ \<Rightarrow>
                         (case configure c field (mapIndex m k) (path @ ''.'' @ k) of
                            Inl err \<Rightarrow> Inl err
                          | Inr field' \<Rightarrow>
                              configureFields c
                                (VStruct name ms (AList.update k (exported, field') fs))
                                m ks path)))
         | _ \<Rightarrow> Inl Panic))"

| "configureInterface c v config path =
     (case config of
        DMap m \<Rightarrow>
          (case v of
             VInterface name ms x \<Rightarrow>
               if ms = [] then Inr (SetDyn v config)
               else
                 let tk = mapIndex m typeKey in
                 if \<not> IsValid tk then Inl (ConfigValueError path MissingType)
                 else
                   (case tk of
                      DScalar (SStr tname) \<Rightarrow>
                        (case types c tname of
                           None \<Rightarrow> Inl (ConfigValueError path (TypeUnknown tname))
                         | Some builder \<Rightarrow>
                             (case Call builder of
                                None \<Rightarrow> Inl Panic
                              | Some object \<Rightarrow>
                                  (case indirectObject object of
                                     None \<Rightarrow> Inl Panic
                                   | Some (s, back) \<Rightarrow>
                                       if \<not> Implements (TPtr (typeOf s)) ms then
                                         Inl (ConfigValueError path (NotImplement (typeOf s) (typeOf v)))
                                       else if \<not> Implements (typeOf object) ms then Inl Panic
                                       else
                                         (case configureStruct c s config path of
                                            Inl err \<Rightarrow> Inl err
                                          | Inr s' \<Rightarrow> Inr (VInterface name ms (Some (Inr (back s'))))))))
                    | _ \<Rightarrow> Inl (ConfigValueError path TypeNotString))
           | _ \<Rightarrow> Inl Panic)
      | _ \<Rightarrow> Inl Panic)"
  by pat_completeness auto

termination
  by (relation "measures
       [case_sum
          (case_sum (case_sum (\<lambda>(c, v, config, path). size config)
                              (\<lambda>(c, v, config, path). size config))
                    (case_sum (\<lambda>(c, xs, cs, path, i, n). Suc (size_list size cs))
                              (\<lambda>(c, v, config, path). size config)))
          (case_sum (case_sum (\<lambda>(c, t, mp, m, ks, path). size (DMap m))
                              (\<lambda>(c, v, config, path). size config))
                    (case_sum (\<lambda>(c, v, m, ks, path). size (DMap m))
                              (\<lambda>(c, v, config, path). size config))),
        case_sum
          (case_sum (case_sum (\<lambda>x. 4) (\<lambda>x. 2)) (case_sum (\<lambda>x. 1) (\<lambda>x. 2)))
          (case_sum (case_sum (\<lambda>x. 1) (\<lambda>x. 2)) (case_sum (\<lambda>x. 1) (\<lambda>x. 3))),
        case_sum
          (case_sum (case_sum (\<lambda>x. 0) (\<lambda>x. 0))
                    (case_sum (\<lambda>(c, xs, cs, path, i, n). length cs) (\<lambda>x. 0)))
          (case_sum (case_sum (\<lambda>(c, t, mp, m, ks, path). length ks) (\<lambda>x. 0))
                    (case_sum (\<lambda>(c, v, m, ks, path). length ks) (\<lambda>x. 0)))]")
     (auto simp: size_mapIndex_less_prod)


declare configure.simps [simp del] configureArray.simps [simp del] configureMap.simps [simp del]
  configureStruct.simps [simp del] configureInterface.simps [simp del]

subsection \<open>Configure (configure.go 88-115)\<close>

definition Configure :: "Config \<Rightarrow> tv \<Rightarrow> string list \<Rightarrow> error + tv" where
  "Configure c v path =
     (case v of
        VPtr t (Some x) \<Rightarrow>
          if length path > 0 then
            (let d = Get c (path ! 0) [] in
             if d = DNull then Inl (ConfigPathError (path ! 0) NoValueFound)
             else configure c v d (path ! 0))
          else configure c v (data c) []
      | _ \<Rightarrow> Inl ConfigTargetError)"


section \<open>Properties\<close>

subsection \<open>Null sources\<close>

text \<open>
  C5.  Binding a null source onto a primitive scalar target (bool, integer, float,
  string) leaves the target as it was, whatever value the caller had put there.
\<close>

theorem null_keeps_scalar:
  "configure c (VScalar s) DNull path = Inr (VScalar s)"
  by (cases s) (simp_all add: configure.simps configureScalar_def IsValid_def)

theorem null_keeps_scalar_witness:
  "configure New (VScalar (SBool True)) DNull [] = Inr (VScalar (SBool True))"
  using null_keeps_scalar [of New "SBool True" "[]"] by simp

text \<open>
  C4, as the code has it.  Binding a null source onto a fixed-length array is no error
  and leaves every element as it was (so an array of zeros stays an array of zeros);
  binding a null source onto a slice sets it to the nil slice, of length 0.
\<close>

theorem null_on_array_and_slice:
  "configure c (VArray t xs) DNull path = Inr (VArray t xs) \<and>
   configure c (VSlice t backing len) DNull path = Inr (VSlice t [] 0)"
  by (simp add: configure.simps configureScalar_def IsValid_def)

theorem null_on_array_and_slice_witness:
  "configure New (VArray TInt (replicate 3 (zero TInt))) DNull [] =
     Inr (VArray TInt [VScalar (SInt 0), VScalar (SInt 0), VScalar (SInt 0)]) \<and>
   configure New (VSlice TInt (replicate 3 (zero TInt)) 3) DNull [] = Inr (VSlice TInt [] 0)"
  using null_on_array_and_slice [of New TInt "replicate 3 (zero TInt)" "[]" "replicate 3 (zero TInt)" 3]
  by (simp add: numeral_3_eq_3)

text \<open>
  C4 as stated fails: an array holding 1, 2, 3 still holds 1, 2, 3 after a null source
  is bound onto it; it is not reset to zeros.
\<close>

theorem null_resets_array_counterexample:
  "configure New (VArray TInt [VScalar (SInt 1), VScalar (SInt 2), VScalar (SInt 3)]) DNull [] =
     Inr (VArray TInt [VScalar (SInt 1), VScalar (SInt 2), VScalar (SInt 3)]) \<and>
   configure New (VArray TInt [VScalar (SInt 1), VScalar (SInt 2), VScalar (SInt 3)]) DNull [] \<noteq>
     Inr (VArray TInt (replicate 3 (zero TInt)))"
  by (simp add: configure.simps configureScalar_def IsValid_def numeral_3_eq_3)

subsection \<open>Register\<close>

text \<open>
  C7, as the code has it.  \<open>Register\<close> returns the registration error exactly when the
  provider is not a function or its number of outputs is not 1, and otherwise stores
  the provider under the name; the number of arguments is not looked at.
\<close>

theorem Register_error_iff:
  "(Register c name p = Inl ProviderError) = (\<not> (providerKind p = KFunc \<and> NumOut p = 1)) \<and>
   (providerKind p = KFunc \<and> NumOut p = 1 \<longrightarrow>
      Register c name p = Inr (c\<lparr>types := (types c)(name \<mapsto> p)\<rparr>))"
  by (auto simp: Register_def)

theorem Register_error_iff_witness:
  "Register New ''T0'' (Func 0 [VScalar (SStr [])]) =
     Inr (New\<lparr>types := (types New)(''T0'' \<mapsto> Func 0 [VScalar (SStr [])])\<rparr>) \<and>
   Register New ''T1'' (Func 0 [VScalar (SStr []), VInterface ''error'' [''Error''] None]) =
     Inl ProviderError \<and>
   Register New ''T2'' (NotFunc (DStr ''abc'')) = Inl ProviderError"
  using Register_error_iff [of New "''T0''" "Func 0 [VScalar (SStr [])]"]
    Register_error_iff [of New "''T1''"
      "Func 0 [VScalar (SStr []), VInterface ''error'' [''Error''] None]"]
    Register_error_iff [of New "''T2''" "NotFunc (DStr ''abc'')"]
  by simp

text \<open>
  C7 as stated fails: a function of one argument with a single output is registered
  without an error.
\<close>

theorem Register_arity_counterexample:
  "NumIn (Func 1 [VScalar (SStr [])]) = 1 \<and>
   Register New ''T'' (Func 1 [VScalar (SStr [])]) =
     Inr (New\<lparr>types := (types New)(''T'' \<mapsto> Func 1 [VScalar (SStr [])])\<rparr>)"
  by (simp add: Register_def)

subsection \<open>Get with a default value\<close>



subsection \<open>Interface slots\<close>

text \<open>
  C3.  When the interface slot already holds a non-nil pointer to a struct, binding a
  Mapping is the struct handler run on that instance, whose result is put back behind
  the same pointer in the same slot.  The interface handler, the only place where the
  registry is read, a provider is called and the "type" element is required, is not
  entered; the struct handler skips the key "type".  For an empty slot of an interface
  with methods the "type" element is required.
\<close>

theorem rebind_populated_slot:
  "configure c (VInterface name ms (Some (Inr (VPtr t (Some (VStruct sname sms fs))))))
       (DMap m) path =
     (case configureStruct c (VStruct sname sms fs) (DMap m) path of
        Inl err \<Rightarrow> Inl err
      | Inr s' \<Rightarrow> Inr (VInterface name ms (Some (Inr (VPtr t (Some s')))))) \<and>
   configureFields c (VStruct sname sms fs) m (typeKey # ks) path =
     configureFields c (VStruct sname sms fs) m ks path \<and>
   (ms \<noteq> [] \<and> mapIndex m typeKey = DNull \<longrightarrow>
      configure c (VInterface name ms None) (DMap m) path =
        Inl (ConfigValueError path MissingType))"
  by (simp add: configure.simps configureInterface.simps IsValid_def)


theorem rebind_populated_slot_witness:
  "configure New
     (VInterface ''C'' [''Foo'']
        (Some (Inr (VPtr (TStruct ''D'' [''Foo''] [(''E1'', True, TString), (''E2'', True, TString)])
           (Some (VStruct ''D'' [''Foo'']
              [(''E1'', True, VScalar (SStr ''xyz'')), (''E2'', True, VScalar (SStr ''123''))]))))))
     (DMap [(''type'', DStr ''C1''), (''E1'', DStr ''abc'')]) [] =
   Inr (VInterface ''C'' [''Foo'']
        (Some (Inr (VPtr (TStruct ''D'' [''Foo''] [(''E1'', True, TString), (''E2'', True, TString)])
           (Some (VStruct ''D'' [''Foo'']
              [(''E1'', True, VScalar (SStr ''abc'')), (''E2'', True, VScalar (SStr ''123''))])))))) \<and>
   [''Foo''] \<noteq> [] \<and> mapIndex [(''E1'', DStr ''abc'')] typeKey = DNull \<and>
   configure New (VInterface ''C'' [''Foo''] None) (DMap [(''E1'', DStr ''abc'')]) [] =
     Inl (ConfigValueError [] MissingType)"
proof -
  have s: "configureStruct New
             (VStruct ''D'' [''Foo'']
                [(''E1'', True, VScalar (SStr ''xyz'')), (''E2'', True, VScalar (SStr ''123''))])
             (DMap [(''type'', DStr ''C1''), (''E1'', DStr ''abc'')]) [] =
           Inr (VStruct ''D'' [''Foo'']
                [(''E1'', True, VScalar (SStr ''abc'')), (''E2'', True, VScalar (SStr ''123''))])"
    by (simp add: MapKeys_def typeKey_def mapIndex_def configure.simps configureStruct.simps
        configureScalar_def IsValid_def)
  have t: "mapIndex [(''E1'', DStr ''abc'')] typeKey = DNull"
    by (simp add: mapIndex_def typeKey_def)
  show ?thesis
    using rebind_populated_slot [of New "''C''" "[''Foo'']"
        "TStruct ''D'' [''Foo''] [(''E1'', True, TString), (''E2'', True, TString)]"
        "''D''" "[''Foo'']"
        "[(''E1'', True, VScalar (SStr ''xyz'')), (''E2'', True, VScalar (SStr ''123''))]"
        "[(''type'', DStr ''C1''), (''E1'', DStr ''abc'')]" "[]" "[]"]
      rebind_populated_slot [of New "''C''" "[''Foo'']" TInt "[]" "[]" "[]"
        "[(''E1'', DStr ''abc'')]" "[]" "[]"]
    by (simp add: s t)
qed


subsection \<open>Set and Get\<close>

lemma scalarKind_not_container [simp]:
  "scalarKind s \<noteq> KMap" "scalarKind s \<noteq> KSlice" "scalarKind s \<noteq> KArray"
  by (cases s; simp)+

lemma Kind_not_array [simp]: "Kind d \<noteq> KArray"
  by (cases d) simp_all


















subsection \<open>Sequences onto arrays and slices\<close>

lemma configureElems_Inr:
  "configureElems c xs cs path i n = Inr ys \<Longrightarrow>
     length ys = length xs \<and> n - i \<le> length xs \<and> n - i \<le> length cs \<and>
     (\<forall>j<n - i. configure c (xs ! j) (cs ! j) (path @ ''.'' @ Itoa (i + j)) = Inr (ys ! j)) \<and>
     (\<forall>j. n - i \<le> j \<and> j < length xs \<longrightarrow> ys ! j = xs ! j)"
proof (induction xs arbitrary: cs i ys)
  case Nil
  then show ?case by (cases cs) (auto split: if_splits)
next
  case (Cons x xs)
  show ?case
  proof (cases cs)
    case Nil
    with Cons.prems show ?thesis by (auto split: if_splits)
  next
    case (Cons cf cs')
    show ?thesis
    proof (cases "i < n")
      case False
      with Cons Cons.prems show ?thesis by auto
    next
      case True
      with Cons Cons.prems obtain y ys' where
        y: "configure c x cf (path @ ''.'' @ Itoa i) = Inr y" and
        r: "configureElems c xs cs' path (Suc i) n = Inr ys'" and
        ys: "ys = y # ys'"
        by (auto split: sum.splits)
      from Cons.IH [OF r] have
        ih: "length ys' = length xs" "n - Suc i \<le> length xs" "n - Suc i \<le> length cs'"
          "\<forall>j<n - Suc i. configure c (xs ! j) (cs' ! j) (path @ ''.'' @ Itoa (Suc i + j)) = Inr (ys' ! j)"
          "\<forall>j. n - Suc i \<le> j \<and> j < length xs \<longrightarrow> ys' ! j = xs ! j"
        by auto
      have bound: "\<forall>j<n - i. configure c ((x # xs) ! j) (cs ! j) (path @ ''.'' @ Itoa (i + j)) = Inr (ys ! j)"
      proof (intro allI impI)
        fix j assume j: "j < n - i"
        show "configure c ((x # xs) ! j) (cs ! j) (path @ ''.'' @ Itoa (i + j)) = Inr (ys ! j)"
        proof (cases j)
          case 0
          with y ys Cons show ?thesis by simp
        next
          case (Suc j')
          with j have "j' < n - Suc i" by arith
          with ih(4) have "configure c (xs ! j') (cs' ! j') (path @ ''.'' @ Itoa (Suc i + j')) = Inr (ys' ! j')"
            by blast
          with Suc ys Cons show ?thesis by simp
        qed
      qed
      have rest: "\<forall>j. n - i \<le> j \<and> j < length (x # xs) \<longrightarrow> ys ! j = (x # xs) ! j"
      proof (intro allI impI)
        fix j assume j: "n - i \<le> j \<and> j < length (x # xs)"
        with True obtain j' where j': "j = Suc j'" by (cases j) auto
        with j have "n - Suc i \<le> j' \<and> j' < length xs" by auto
        with ih(5) have "ys' ! j' = xs ! j'" by blast
        with j' ys show "ys ! j = (x # xs) ! j" by simp
      qed
      from ih(1-3) ys Cons True bound rest show ?thesis by auto
    qed
  qed
qed

lemma configureElems_Inl:
  "configureElems c xs cs path i n = Inl e \<Longrightarrow> n - i \<le> length xs \<Longrightarrow> n - i \<le> length cs \<Longrightarrow>
     \<exists>j<n - i. configure c (xs ! j) (cs ! j) (path @ ''.'' @ Itoa (i + j)) = Inl e"
proof (induction xs arbitrary: cs i)
  case Nil
  then show ?case by (cases cs) (auto split: if_splits)
next
  case (Cons x xs)
  show ?case
  proof (cases cs)
    case Nil
    with Cons.prems show ?thesis by (auto split: if_splits)
  next
    case (Cons cf cs')
    show ?thesis
    proof (cases "i < n")
      case False
      with Cons Cons.prems show ?thesis by auto
    next
      case True
      show ?thesis
      proof (cases "configure c x cf (path @ ''.'' @ Itoa i)")
        case (Inl e')
        with Cons Cons.prems True have "e' = e" by simp
        with Inl Cons True show ?thesis by (intro exI [of _ 0]) simp
      next
        case (Inr y)
        with Cons Cons.prems True have r: "configureElems c xs cs' path (Suc i) n = Inl e"
          by (auto split: sum.splits)
        from Cons.prems Cons True have "n - Suc i \<le> length xs" "n - Suc i \<le> length cs'" by auto
        from Cons.IH [OF r this] obtain j where
          "j < n - Suc i" "configure c (xs ! j) (cs' ! j) (path @ ''.'' @ Itoa (Suc i + j)) = Inl e"
          by blast
        with Cons show ?thesis by (intro exI [of _ "Suc j"]) auto
      qed
    qed
  qed
qed


lemma configure_array_unfold:
  "configure c (VArray t xs) (DSeq cs) path =
     (case configureElems c xs cs path 0 (min (length cs) (length xs)) of
        Inl err \<Rightarrow> Inl err
      | Inr ys \<Rightarrow>
          Inr (VArray t (take (min (length cs) (length xs)) ys @
                 replicate (length ys - min (length cs) (length xs)) (zero t))))"
  by (simp add: configure.simps configureArray.simps Let_def split: sum.splits)

lemma configure_slice_unfold:
  "configure c (VSlice t backing len) (DSeq cs) path =
     (let grown = (length backing < length cs);
          backing' = (if grown then take len backing @ replicate (length cs - len) (zero t)
                      else backing);
          len' = (if grown then length cs else len);
          n = min (length cs) (length backing')
      in case configureElems c (take len' backing') cs path 0 n of
           Inl err \<Rightarrow> Inl err
         | Inr ys \<Rightarrow> Inr (VSlice t (ys @ drop len' backing') (if n < len' then n else len')))"
  by (simp add: configure.simps configureArray.simps Let_def split: sum.splits)

text \<open>
  C2.  Binding a sequence of length \<open>n\<close> onto an array of capacity \<open>c\<close>: when the bind
  succeeds the array has its \<open>c\<close> elements, the first \<open>min n c\<close> are the results of binding
  the source elements at the same positions, and the positions from \<open>min n c\<close> on hold the
  zero value of the element type; when it fails, the error is that of binding one of
  the first \<open>min n c\<close> elements, so the source elements beyond the capacity are dropped
  without an error.  Binding onto a slice whose capacity is less than \<open>n\<close>: the backing
  array becomes one of \<open>n\<close> elements, the existing elements are kept as the targets at
  their positions and the new positions start from the zero value.  Binding fewer
  elements than the slice's length: the length becomes the number of bound elements,
  and the elements of the backing array after them are left as they were, not zeroed.
\<close>

theorem bind_sequence:
  "(configure c (VArray t xs) (DSeq cs) path = Inr r \<longrightarrow>
      (\<exists>ys. r = VArray t ys \<and> length ys = length xs \<and>
         (\<forall>j<min (length cs) (length xs).
            configure c (xs ! j) (cs ! j) (path @ ''.'' @ Itoa j) = Inr (ys ! j)) \<and>
         (\<forall>j. min (length cs) (length xs) \<le> j \<and> j < length xs \<longrightarrow> ys ! j = zero t))) \<and>
   (configure c (VArray t xs) (DSeq cs) path = Inl e \<longrightarrow>
      (\<exists>j<min (length cs) (length xs).
         configure c (xs ! j) (cs ! j) (path @ ''.'' @ Itoa j) = Inl e)) \<and>
   (len \<le> length backing \<and> length backing < length cs \<and>
    configure c (VSlice t backing len) (DSeq cs) path = Inr r \<longrightarrow>
      (\<exists>ys. r = VSlice t ys (length cs) \<and> length ys = length cs \<and>
         (\<forall>j<length cs.
            configure c (if j < len then backing ! j else zero t) (cs ! j) (path @ ''.'' @ Itoa j) =
              Inr (ys ! j)))) \<and>
   (len \<le> length backing \<and> length cs < len \<and>
    configure c (VSlice t backing len) (DSeq cs) path = Inr r \<longrightarrow>
      (\<exists>ys. r = VSlice t ys (length cs) \<and> length ys = length backing \<and>
         (\<forall>j<length cs. configure c (backing ! j) (cs ! j) (path @ ''.'' @ Itoa j) = Inr (ys ! j)) \<and>
         (\<forall>j. length cs \<le> j \<and> j < length backing \<longrightarrow> ys ! j = backing ! j)))"
proof (intro conjI impI)
  let ?m = "min (length cs) (length xs)"
  assume a: "configure c (VArray t xs) (DSeq cs) path = Inr r"
  then obtain ys where
    ys: "configureElems c xs cs path 0 ?m = Inr ys" and
    r: "r = VArray t (take ?m ys @ replicate (length ys - ?m) (zero t))"
    by (auto simp: configure_array_unfold split: sum.splits)
  from configureElems_Inr [OF ys] have
    len: "length ys = length xs" and
    el: "\<forall>j<?m. configure c (xs ! j) (cs ! j) (path @ ''.'' @ Itoa j) = Inr (ys ! j)"
    by auto
  let ?zs = "take ?m ys @ replicate (length ys - ?m) (zero t)"
  have "length ?zs = length xs" using len by auto
  moreover have "\<forall>j<?m. configure c (xs ! j) (cs ! j) (path @ ''.'' @ Itoa j) = Inr (?zs ! j)"
    using el len by (auto simp: nth_append)
  moreover have "\<forall>j. ?m \<le> j \<and> j < length xs \<longrightarrow> ?zs ! j = zero t"
    using len by (auto simp: nth_append)
  ultimately show "\<exists>ys. r = VArray t ys \<and> length ys = length xs \<and>
         (\<forall>j<?m. configure c (xs ! j) (cs ! j) (path @ ''.'' @ Itoa j) = Inr (ys ! j)) \<and>
         (\<forall>j. ?m \<le> j \<and> j < length xs \<longrightarrow> ys ! j = zero t)"
    using r by blast
next
  let ?m = "min (length cs) (length xs)"
  assume a: "configure c (VArray t xs) (DSeq cs) path = Inl e"
  then have "configureElems c xs cs path 0 ?m = Inl e"
    by (auto simp: configure_array_unfold split: sum.splits)
  from configureElems_Inl [OF this]
  show "\<exists>j<?m. configure c (xs ! j) (cs ! j) (path @ ''.'' @ Itoa j) = Inl e"
    by auto
next
  assume a: "len \<le> length backing \<and> length backing < length cs \<and>
    configure c (VSlice t backing len) (DSeq cs) path = Inr r"
  let ?b = "take len backing @ replicate (length cs - len) (zero t)"
  from a have lb: "length ?b = length cs" by auto
  from a obtain ys where
    ys: "configureElems c ?b cs path 0 (length cs) = Inr ys" and
    r: "r = VSlice t ys (length cs)"
    by (auto simp: configure_slice_unfold Let_def min_def split: sum.splits if_splits)
  from configureElems_Inr [OF ys] lb have
    "length ys = length cs"
    "\<forall>j<length cs. configure c (?b ! j) (cs ! j) (path @ ''.'' @ Itoa j) = Inr (ys ! j)"
    by auto
  moreover have "\<forall>j<length cs. ?b ! j = (if j < len then backing ! j else zero t)"
    using a by (auto simp: nth_append)
  ultimately show "\<exists>ys. r = VSlice t ys (length cs) \<and> length ys = length cs \<and>
         (\<forall>j<length cs.
            configure c (if j < len then backing ! j else zero t) (cs ! j) (path @ ''.'' @ Itoa j) =
              Inr (ys ! j))"
    using r by auto
next
  assume a: "len \<le> length backing \<and> length cs < len \<and>
    configure c (VSlice t backing len) (DSeq cs) path = Inr r"
  from a obtain ys where
    ys: "configureElems c (take len backing) cs path 0 (length cs) = Inr ys" and
    r: "r = VSlice t (ys @ drop len backing) (length cs)"
    by (auto simp: configure_slice_unfold Let_def min_def split: sum.splits if_splits)
  from configureElems_Inr [OF ys] a have
    l: "length ys = len" and
    el: "\<forall>j<length cs. configure c (take len backing ! j) (cs ! j) (path @ ''.'' @ Itoa j) = Inr (ys ! j)"
    and rest: "\<forall>j. length cs \<le> j \<and> j < len \<longrightarrow> ys ! j = take len backing ! j"
    by auto
  let ?zs = "ys @ drop len backing"
  have "length ?zs = length backing" using l a by auto
  moreover have "\<forall>j<length cs. configure c (backing ! j) (cs ! j) (path @ ''.'' @ Itoa j) = Inr (?zs ! j)"
    using el l a by (auto simp: nth_append)
  moreover have "\<forall>j. length cs \<le> j \<and> j < length backing \<longrightarrow> ?zs ! j = backing ! j"
    using rest l a by (auto simp: nth_append)
  ultimately show "\<exists>ys. r = VSlice t ys (length cs) \<and> length ys = length backing \<and>
         (\<forall>j<length cs. configure c (backing ! j) (cs ! j) (path @ ''.'' @ Itoa j) = Inr (ys ! j)) \<and>
         (\<forall>j. length cs \<le> j \<and> j < length backing \<longrightarrow> ys ! j = backing ! j)"
    using r by blast
qed


theorem bind_sequence_witness:
  "configure New (VArray TInt [VScalar (SInt 7), VScalar (SInt 8), VScalar (SInt 9)])
       (DSeq [DFloat 1, DFloat 3]) [] =
     Inr (VArray TInt [VScalar (SInt 1), VScalar (SInt 3), VScalar (SInt 0)]) \<and>
   configure New (VArray TInt [VScalar (SInt 7), VScalar (SInt 8), VScalar (SInt 9)])
       (DSeq [DFloat 1, DFloat 3, DFloat 2, DFloat 4]) [] =
     Inr (VArray TInt [VScalar (SInt 1), VScalar (SInt 3), VScalar (SInt 2)]) \<and>
   configure New (VArray TInt [VScalar (SInt 7)]) (DSeq [DStr ''x'']) ''p'' =
     Inl (ConfigValueError ''p.0'' (CannotConfigure TString TInt)) \<and>
   (\<exists>j<min (length [DStr ''x'']) (length [VScalar (SInt 7)]).
      configure New ([VScalar (SInt 7)] ! j) ([DStr ''x''] ! j) (''p'' @ ''.'' @ Itoa j) =
        Inl (ConfigValueError ''p.0'' (CannotConfigure TString TInt))) \<and>
   configure New (VSlice TInt [VScalar (SInt 7)] 1) (DSeq [DFloat 10, DFloat 30]) [] =
     Inr (VSlice TInt [VScalar (SInt 10), VScalar (SInt 30)] 2) \<and>
   configure New (VSlice TInt [VScalar (SInt 7), VScalar (SInt 8), VScalar (SInt 9)] 3)
       (DSeq [DFloat 10, DFloat 30]) [] =
     Inr (VSlice TInt [VScalar (SInt 10), VScalar (SInt 30), VScalar (SInt 9)] 2) \<and>
   (\<exists>ys. VSlice TInt [VScalar (SInt 10), VScalar (SInt 30), VScalar (SInt 9)] 2 =
           VSlice TInt ys (length [DFloat 10, DFloat 30]) \<and>
         length ys = length [VScalar (SInt 7), VScalar (SInt 8), VScalar (SInt 9)])"
proof -
  note ev = configure.simps configureArray.simps configureScalar_def IsValid_def
    float_to_int_def numeric_def Itoa.simps
  have a1: "configure New (VArray TInt [VScalar (SInt 7), VScalar (SInt 8), VScalar (SInt 9)])
       (DSeq [DFloat 1, DFloat 3]) [] =
     Inr (VArray TInt [VScalar (SInt 1), VScalar (SInt 3), VScalar (SInt 0)])"
    by (simp add: ev)
  have a2: "configure New (VArray TInt [VScalar (SInt 7), VScalar (SInt 8), VScalar (SInt 9)])
       (DSeq [DFloat 1, DFloat 3, DFloat 2, DFloat 4]) [] =
     Inr (VArray TInt [VScalar (SInt 1), VScalar (SInt 3), VScalar (SInt 2)])"
    by (simp add: ev)
  have a3: "configure New (VArray TInt [VScalar (SInt 7)]) (DSeq [DStr ''x'']) ''p'' =
     Inl (ConfigValueError ''p.0'' (CannotConfigure TString TInt))"
    by (simp add: ev)
  have s1: "1 \<le> length [VScalar (SInt 7)] \<and>
      length [VScalar (SInt 7)] < length [DFloat 10, DFloat 30] \<and>
      configure New (VSlice TInt [VScalar (SInt 7)] 1) (DSeq [DFloat 10, DFloat 30]) [] =
        Inr (VSlice TInt [VScalar (SInt 10), VScalar (SInt 30)] 2)"
    by (simp add: ev)
  have s2: "3 \<le> length [VScalar (SInt 7), VScalar (SInt 8), VScalar (SInt 9)] \<and>
      length [DFloat 10, DFloat 30] < 3 \<and>
      configure New (VSlice TInt [VScalar (SInt 7), VScalar (SInt 8), VScalar (SInt 9)] 3)
          (DSeq [DFloat 10, DFloat 30]) [] =
        Inr (VSlice TInt [VScalar (SInt 10), VScalar (SInt 30), VScalar (SInt 9)] 2)"
    by (simp add: ev)
  note t1 = bind_sequence [THEN conjunct1, rule_format, OF a1]
  note t2 = bind_sequence [THEN conjunct2, THEN conjunct1, rule_format, OF a3]
  note t3 = bind_sequence [THEN conjunct2, THEN conjunct2, THEN conjunct1, rule_format, OF s1]
  note t4 = bind_sequence [THEN conjunct2, THEN conjunct2, THEN conjunct2, rule_format, OF s2]
  from t4 have t4': "\<exists>ys. VSlice TInt [VScalar (SInt 10), VScalar (SInt 30), VScalar (SInt 9)] 2 =
           VSlice TInt ys (length [DFloat 10, DFloat 30]) \<and>
         length ys = length [VScalar (SInt 7), VScalar (SInt 8), VScalar (SInt 9)]"
    by blast
  from a1 a2 a3 t1 t2 t3 t4' s1 s2 show ?thesis by blast
qed


subsection \<open>Unknown fields and unknown types\<close>

lemma map_of_update_other: "k \<noteq> k' \<Longrightarrow> map_of (AList.update k' x fs) k = map_of fs k"
  by (simp add: update_conv')

lemma configureFields_unknown_fails:
  "k \<in> set ks \<Longrightarrow> k \<noteq> typeKey \<Longrightarrow> map_of fs k = None \<Longrightarrow>
     \<exists>e. configureFields c (VStruct name ms fs) m ks path = Inl e"
proof (induction ks arbitrary: fs)
  case Nil
  then show ?case by simp
next
  case (Cons k' ks)
  show ?case
  proof (cases "k' = typeKey")
    case True
    with Cons show ?thesis by auto
  next
    case False
    show ?thesis
    proof (cases "map_of fs k'")
      case None
      with False show ?thesis by simp
    next
      case (Some ef)
      obtain exported field where ef: "ef = (exported, field)" by (cases ef)
      from Some Cons.prems have ne: "k \<noteq> k'" by auto
      with Cons.prems have inks: "k \<in> set ks" by simp
      have step: "\<And>x. \<exists>e. configureFields c (VStruct name ms (AList.update k' x fs)) m ks path = Inl e"
        using Cons.IH [OF inks Cons.prems(2)] ne Cons.prems(3) by (simp add: map_of_update_other)
      show ?thesis
      proof (cases exported)
        case False
        with Some ef \<open>k' \<noteq> typeKey\<close> show ?thesis by simp
      next
        case True
        with Some ef \<open>k' \<noteq> typeKey\<close> step show ?thesis
          by (cases field) (auto split: sum.splits)
      qed
    qed
  qed
qed

lemma configureFields_struct:
  "configureFields c (VStruct name ms fs) m ks path = Inr v' \<Longrightarrow>
     \<exists>fs'. v' = VStruct name ms fs' \<and> dom (map_of fs') = dom (map_of fs)"
proof (induction ks arbitrary: fs)
  case Nil
  then show ?case by auto
next
  case (Cons k' ks)
  show ?case
  proof (cases "k' = typeKey")
    case True
    with Cons show ?thesis by auto
  next
    case False
    with Cons.prems obtain exported field where
      f: "map_of fs k' = Some (exported, field)" and ex: exported
      by (auto split: option.splits if_splits)
    have step: "\<And>x. configureFields c (VStruct name ms (AList.update k' x fs)) m ks path = Inr v' \<Longrightarrow>
        \<exists>fs'. v' = VStruct name ms fs' \<and> dom (map_of fs') = dom (map_of fs)"
    proof -
      fix x assume "configureFields c (VStruct name ms (AList.update k' x fs)) m ks path = Inr v'"
      from Cons.IH [OF this] obtain fs' where
        v': "v' = VStruct name ms fs'" and
        d: "dom (map_of fs') = dom (map_of (AList.update k' x fs))" by blast
      from f have "k' \<in> dom (map_of fs)" by blast
      then have "dom (map_of (AList.update k' x fs)) = dom (map_of fs)"
        by (auto simp: update_conv')
      with v' d show "\<exists>fs'. v' = VStruct name ms fs' \<and> dom (map_of fs') = dom (map_of fs)"
        by simp
    qed
    from Cons.prems False f ex show ?thesis
      by (cases field) (auto split: sum.splits dest: step)
  qed
qed

lemma configureFields_append:
  "configureFields c v m (ks1 @ ks2) path =
     (case configureFields c v m ks1 path of
        Inl e \<Rightarrow> Inl e
      | Inr v' \<Rightarrow> configureFields c v' m ks2 path)"
proof (induction ks1 arbitrary: v)
  case Nil
  show ?case by simp
next
  case (Cons k ks1)
  show ?case
    by (simp add: Cons.IH split: tv.splits option.splits sum.splits prod.splits)
qed


lemma configure_struct_unfold:
  "configure c (VStruct name ms fs) (DMap m) path =
     configureFields c (VStruct name ms fs) m (MapKeys m) path"
  by (simp add: configure.simps configureStruct.simps split: sum.splits)

text \<open>
  C6, as the code has it.  Binding a Mapping onto a struct fails when the Mapping has a
  key, other than "type", that is no field of the struct.  When the keys before that
  key bind without error, the error is the field-not-found one: its message names the
  key, and its path is the path of the Mapping being bound, without the key.  Binding a
  Mapping onto an interface with methods whose slot does not hold a non-nil pointer
  fails with the unknown-type error when the "type" string names no registered type.
\<close>

theorem unknown_field_and_type:
  "(k \<in> set (MapKeys m) \<and> k \<noteq> typeKey \<and> map_of fs k = None \<longrightarrow>
      (\<exists>e. configure c (VStruct name ms fs) (DMap m) path = Inl e)) \<and>
   (MapKeys m = ks1 @ k # ks2 \<and> k \<noteq> typeKey \<and> map_of fs k = None \<and>
    configureFields c (VStruct name ms fs) m ks1 path = Inr v' \<longrightarrow>
      configure c (VStruct name ms fs) (DMap m) path =
        Inl (ConfigValueError path (FieldNotFound k (typeOf v')))) \<and>
   (ims \<noteq> [] \<and> mapIndex m typeKey = DStr tn \<and> types c tn = None \<longrightarrow>
      configureInterface c (VInterface iname ims x) (DMap m) path =
        Inl (ConfigValueError path (TypeUnknown tn)) \<and>
      configure c (VInterface iname ims None) (DMap m) path =
        Inl (ConfigValueError path (TypeUnknown tn)))"
proof (intro conjI impI)
  assume "k \<in> set (MapKeys m) \<and> k \<noteq> typeKey \<and> map_of fs k = None"
  then show "\<exists>e. configure c (VStruct name ms fs) (DMap m) path = Inl e"
    using configureFields_unknown_fails [of k "MapKeys m" fs c name ms m path]
    by (simp add: configure_struct_unfold)
next
  assume a: "MapKeys m = ks1 @ k # ks2 \<and> k \<noteq> typeKey \<and> map_of fs k = None \<and>
    configureFields c (VStruct name ms fs) m ks1 path = Inr v'"
  then obtain fs' where v': "v' = VStruct name ms fs'" and d: "dom (map_of fs') = dom (map_of fs)"
    using configureFields_struct by blast
  from a d have "map_of fs' k = None" by (metis domIff)
  with a v' show "configure c (VStruct name ms fs) (DMap m) path =
      Inl (ConfigValueError path (FieldNotFound k (typeOf v')))"
    by (simp add: configure_struct_unfold configureFields_append)
next
  assume a: "ims \<noteq> [] \<and> mapIndex m typeKey = DStr tn \<and> types c tn = None"
  then show "configureInterface c (VInterface iname ims x) (DMap m) path =
      Inl (ConfigValueError path (TypeUnknown tn))"
    by (simp add: configureInterface.simps IsValid_def)
  with a show "configure c (VInterface iname ims None) (DMap m) path =
      Inl (ConfigValueError path (TypeUnknown tn))"
    by (simp add: configure.simps configureInterface.simps IsValid_def)
qed

theorem unknown_field_and_type_witness:
  "configure New (VStruct ''D'' [''Foo''] [(''E1'', True, VScalar (SStr []))])
       (DMap [(''type'', DStr ''C1''), (''E1'', DStr ''abc''), (''E3'', DStr ''x'')]) ''app'' =
     Inl (ConfigValueError ''app''
       (FieldNotFound ''E3'' (TStruct ''D'' [''Foo''] [(''E1'', True, TString)]))) \<and>
   (\<exists>e. configure New (VStruct ''D'' [''Foo''] [(''E1'', True, VScalar (SStr []))])
       (DMap [(''type'', DStr ''C1''), (''E1'', DStr ''abc''), (''E3'', DStr ''x'')]) ''app'' = Inl e) \<and>
   configure New (VInterface ''C'' [''Foo''] None)
       (DMap [(''type'', DStr ''C2''), (''E1'', DStr ''abc'')]) ''app'' =
     Inl (ConfigValueError ''app'' (TypeUnknown ''C2''))"
proof -
  let ?m = "[(''type'', DStr ''C1''), (''E1'', DStr ''abc''), (''E3'', DStr ''x'')]"
  let ?fs = "[(''E1'', True, VScalar (SStr []))]"
  have h1: "''E3'' \<in> set (MapKeys ?m) \<and> ''E3'' \<noteq> typeKey \<and> map_of ?fs ''E3'' = None"
    by (simp add: MapKeys_def typeKey_def)
  have h2: "MapKeys ?m = [''type'', ''E1''] @ ''E3'' # [] \<and> ''E3'' \<noteq> typeKey \<and>
      map_of ?fs ''E3'' = None \<and>
      configureFields New (VStruct ''D'' [''Foo''] ?fs) ?m [''type'', ''E1''] ''app'' =
        Inr (VStruct ''D'' [''Foo''] [(''E1'', True, VScalar (SStr ''abc''))])"
    by (simp add: MapKeys_def typeKey_def mapIndex_def configure.simps configureScalar_def
        IsValid_def)
  have h3: "[''Foo''] \<noteq> [] \<and>
      mapIndex [(''type'', DStr ''C2''), (''E1'', DStr ''abc'')] typeKey = DStr ''C2'' \<and>
      types New ''C2'' = None"
    by (simp add: mapIndex_def typeKey_def New_def)
  note t1 = unknown_field_and_type [THEN conjunct1, rule_format, OF h1]
  note t2 = unknown_field_and_type [THEN conjunct2, THEN conjunct1, rule_format, OF h2]
  note t3 = unknown_field_and_type [THEN conjunct2, THEN conjunct2, rule_format, OF h3]
  from t1 [of New "''D''" "[''Foo'']" "''app''"] t2 t3 [of "''C''" None "''app''"]
  show ?thesis by simp
qed

text \<open>
  C6 as stated fails.  The path of the field-not-found error is the path of the
  Mapping ("app"), not a path that includes the offending key ("app.E3").  And an
  unregistered "type" is no error when the slot already holds a non-nil pointer: the
  instance is bound in place.
\<close>

theorem unknown_field_path_counterexample:
  "configure New (VStruct ''D'' [''Foo''] [(''E1'', True, VScalar (SStr []))])
       (DMap [(''E3'', DStr ''abc'')]) ''app'' =
     Inl (ConfigValueError ''app'' (FieldNotFound ''E3'' (TStruct ''D'' [''Foo''] [(''E1'', True, TString)]))) \<and>
   configure New (VStruct ''D'' [''Foo''] [(''E1'', True, VScalar (SStr []))])
       (DMap [(''E3'', DStr ''abc'')]) ''app'' \<noteq>
     Inl (ConfigValueError ''app.E3'' (FieldNotFound ''E3'' (TStruct ''D'' [''Foo''] [(''E1'', True, TString)]))) \<and>
   types New ''C2'' = None \<and>
   configure New
     (VInterface ''C'' [''Foo'']
        (Some (Inr (VPtr (TStruct ''D'' [''Foo''] [(''E1'', True, TString)])
           (Some (VStruct ''D'' [''Foo''] [(''E1'', True, VScalar (SStr ''xyz''))]))))))
     (DMap [(''type'', DStr ''C2''), (''E1'', DStr ''abc'')]) [] =
   Inr (VInterface ''C'' [''Foo'']
        (Some (Inr (VPtr (TStruct ''D'' [''Foo''] [(''E1'', True, TString)])
           (Some (VStruct ''D'' [''Foo''] [(''E1'', True, VScalar (SStr ''abc''))]))))))"
  by (simp add: configure.simps configureStruct.simps MapKeys_def typeKey_def mapIndex_def
      configureScalar_def IsValid_def New_def)


subsection \<open>merge\<close>

text \<open>
  What the code computes for two Mappings (the keys of update being distinct, as the
  keys of a Go map are): a key that update does not have keeps the value of base; a key
  that update binds to a value other than null is bound to the merge of base's value
  (null when base has no such key) with it; a key that update binds to null is absent
  from the result.
\<close>

lemma merge_step_eq:
  "(if Kind e1 = KMap \<and> Kind e2 = KMap then merge e1 e2 else e2) = merge e1 e2"
  by (cases e1; cases e2) (simp_all del: merge.simps(1))

lemma merge_valid: "e2 \<noteq> DNull \<Longrightarrow> merge e1 e2 \<noteq> DNull"
  by (cases e1; cases e2) simp_all

lemma map_of_SetMapIndex:
  "map_of (SetMapIndex m k v) k' =
     (if k' = k then (if v = DNull then None else Some v) else map_of m k')"
  by (auto simp: SetMapIndex_def IsValid_def update_conv' delete_conv')

lemma mapIndex_SetMapIndex_other: "k' \<noteq> k \<Longrightarrow> mapIndex (SetMapIndex m k v) k' = mapIndex m k'"
  by (simp add: mapIndex_def map_of_SetMapIndex)

lemma merge_fold_lookup:
  "distinct ks \<Longrightarrow>
   map_of (fold (\<lambda>key m. SetMapIndex m key (merge (mapIndex m key) (mapIndex m2 key))) ks m) k =
     (if k \<in> set ks
      then (if merge (mapIndex m k) (mapIndex m2 k) = DNull then None
            else Some (merge (mapIndex m k) (mapIndex m2 k)))
      else map_of m k)"
proof (induction ks arbitrary: m)
  case Nil
  show ?case by simp
next
  case (Cons q ks)
  let ?m' = "SetMapIndex m q (merge (mapIndex m q) (mapIndex m2 q))"
  from Cons.prems have d: "distinct ks" and q: "q \<notin> set ks" by auto
  have "map_of (fold (\<lambda>key m. SetMapIndex m key (merge (mapIndex m key) (mapIndex m2 key))) (q # ks) m) k =
        map_of (fold (\<lambda>key m. SetMapIndex m key (merge (mapIndex m key) (mapIndex m2 key))) ks ?m') k"
    by simp
  also have "\<dots> = (if k \<in> set ks
      then (if merge (mapIndex ?m' k) (mapIndex m2 k) = DNull then None
            else Some (merge (mapIndex ?m' k) (mapIndex m2 k)))
      else map_of ?m' k)"
    by (rule Cons.IH [OF d])
  also have "\<dots> = (if k \<in> set (q # ks)
      then (if merge (mapIndex m k) (mapIndex m2 k) = DNull then None
            else Some (merge (mapIndex m k) (mapIndex m2 k)))
      else map_of m k)"
  proof (cases "k \<in> set ks")
    case True
    with q have "k \<noteq> q" by auto
    with True show ?thesis by (simp add: mapIndex_SetMapIndex_other)
  next
    case False
    then show ?thesis by (simp add: map_of_SetMapIndex)
  qed
  finally show ?case .
qed

lemma merge_maps_unfold:
  "merge (DMap m1) (DMap m2) =
     DMap (fold (\<lambda>key m. SetMapIndex m key (merge (mapIndex m key) (mapIndex m2 key)))
             (MapKeys m2) m1)"
  by (simp add: Let_def merge_step_eq del: merge.simps(1) add: merge.simps(1))

lemma merge_lookup:
  "distinct (MapKeys m2) \<Longrightarrow>
   \<exists>r. merge (DMap m1) (DMap m2) = DMap r \<and>
       (\<forall>k. map_of r k =
          (case map_of m2 k of
             None \<Rightarrow> map_of m1 k
           | Some v2 \<Rightarrow> if v2 = DNull then None else Some (merge (mapIndex m1 k) v2)))"
proof -
  assume d: "distinct (MapKeys m2)"
  let ?r = "fold (\<lambda>key m. SetMapIndex m key (merge (mapIndex m key) (mapIndex m2 key)))
             (MapKeys m2) m1"
  have "\<forall>k. map_of ?r k =
          (case map_of m2 k of
             None \<Rightarrow> map_of m1 k
           | Some v2 \<Rightarrow> if v2 = DNull then None else Some (merge (mapIndex m1 k) v2))"
  proof
    fix k
    show "map_of ?r k =
          (case map_of m2 k of
             None \<Rightarrow> map_of m1 k
           | Some v2 \<Rightarrow> if v2 = DNull then None else Some (merge (mapIndex m1 k) v2))"
    proof (cases "map_of m2 k")
      case None
      then have "k \<notin> set (MapKeys m2)" by (simp add: MapKeys_def map_of_eq_None_iff)
      with None show ?thesis by (simp add: merge_fold_lookup [OF d])
    next
      case (Some v2)
      then have "k \<in> set (MapKeys m2)"
        by (auto simp: MapKeys_def dest: map_of_SomeD intro: rev_image_eqI)
      moreover from Some have "mapIndex m2 k = v2" by (simp add: mapIndex_def)
      moreover have "(merge (mapIndex m1 k) v2 = DNull) = (v2 = DNull)"
        by (cases "mapIndex m1 k"; cases v2) simp_all
      ultimately show ?thesis using Some by (simp add: merge_fold_lookup [OF d])
    qed
  qed
  then show ?thesis by (simp only: merge_maps_unfold) blast
qed

text \<open>
  The example of the specification and of \<^verbatim>\<open>TestMerge\<close>: the code and the reference
  definition agree on it.
\<close>

lemma merge_example:
  "merge (DMap [(''a'', DMap [(''b'', DFloat 1), (''c'', DFloat 2)]), (''d'', DFloat 3)])
         (DMap [(''a'', DMap [(''c'', DFloat 4), (''e'', DFloat 5)]), (''d'', DFloat 30)]) =
     DMap [(''a'', DMap [(''b'', DFloat 1), (''c'', DFloat 4), (''e'', DFloat 5)]), (''d'', DFloat 30)] \<and>
   merge_ref (DMap [(''a'', DMap [(''b'', DFloat 1), (''c'', DFloat 2)]), (''d'', DFloat 3)])
         (DMap [(''a'', DMap [(''c'', DFloat 4), (''e'', DFloat 5)]), (''d'', DFloat 30)]) =
     DMap [(''a'', DMap [(''b'', DFloat 1), (''c'', DFloat 4), (''e'', DFloat 5)]), (''d'', DFloat 30)] \<and>
   merge (DMap [(''a'', DSeq [DFloat 1, DFloat 2])]) (DMap [(''a'', DSeq [DFloat 100, DFloat 200])]) =
     DMap [(''a'', DSeq [DFloat 100, DFloat 200])]"
  by (simp add: MapKeys_def mapIndex_def SetMapIndex_def IsValid_def)

text \<open>
  C1.  The code departs from the reference definition where update binds a key to
  null: the reference definition binds the key to null in the result, the code removes
  the key (\<^verbatim>\<open>SetMapIndex\<close> with the zero Value deletes).
\<close>

theorem merge_null_update_value:
  "merge (DMap [(''a'', DInt 1)]) (DMap [(''a'', DNull)]) = DMap [] \<and>
   merge_ref (DMap [(''a'', DInt 1)]) (DMap [(''a'', DNull)]) = DMap [(''a'', DNull)] \<and>
   merge (DMap []) (DMap [(''b'', DNull)]) = DMap [] \<and>
   merge_ref (DMap []) (DMap [(''b'', DNull)]) = DMap [(''b'', DNull)]"
  by (simp add: MapKeys_def mapIndex_def SetMapIndex_def IsValid_def)

subsection \<open>merge changes the base in place\<close>

lemma mapIndexS_SetMapIndexS:
  "mapIndexS (SetMapIndexS m k v) k' = (if k' = k then v else mapIndexS m k')"
  by (auto simp: mapIndexS_def SetMapIndexS_def update_conv' delete_conv')

lemma mapIndexS_fold:
  "mapIndexS (fold (\<lambda>k m. SetMapIndexS m k (mapIndexS m2 k)) ks m) k =
     (if k \<in> set ks then mapIndexS m2 k else mapIndexS m k)"
  by (induction ks arbitrary: m) (auto simp: mapIndexS_SetMapIndexS)

lemma merge_keys_flat:
  "a1 \<noteq> a2 \<Longrightarrow> distinct ks \<Longrightarrow>
   \<forall>k\<in>set ks. \<not> (is_map (mapIndexS (s a1) k) \<and> is_map (mapIndexS (s a2) k)) \<Longrightarrow>
   merge_keys n s a1 a2 ks =
     Some (s(a1 := fold (\<lambda>k m. SetMapIndexS m k (mapIndexS (s a2) k)) ks (s a1)))"
proof (induction ks arbitrary: s)
  case Nil
  show ?case by simp
next
  case (Cons k ks)
  let ?s' = "s(a1 := SetMapIndexS (s a1) k (mapIndexS (s a2) k))"
  from Cons.prems have step:
    "merge_keys n s a1 a2 (k # ks) = merge_keys n ?s' a1 a2 ks"
    by (auto simp: Let_def)
  have inv: "\<forall>k'\<in>set ks. \<not> (is_map (mapIndexS (?s' a1) k') \<and> is_map (mapIndexS (?s' a2) k'))"
    using Cons.prems by (auto simp: mapIndexS_SetMapIndexS)
  from Cons.prems have d: "distinct ks" by simp
  have s2: "?s' a2 = s a2" using Cons.prems(1) by simp
  have s1: "?s' a1 = SetMapIndexS (s a1) k (mapIndexS (s a2) k)" by simp
  have upd: "\<And>x. ?s'(a1 := x) = s(a1 := x)" by simp
  have "merge_keys n ?s' a1 a2 ks =
          Some (?s'(a1 := fold (\<lambda>k m. SetMapIndexS m k (mapIndexS (?s' a2) k)) ks (?s' a1)))"
    by (rule Cons.IH [OF Cons.prems(1) d inv])
  also have "\<dots> = Some (s(a1 := fold (\<lambda>k m. SetMapIndexS m k (mapIndexS (s a2) k)) (k # ks) (s a1)))"
    unfolding s2 s1 upd by simp
  finally show ?case unfolding step .
qed

lemma merge_store_ref:
  "merge_store (Suc n) s (RMap a1) (RMap a2) = Some (s', r) \<Longrightarrow> r = RMap a1"
  by (auto split: option.splits)

lemma merge_store_not_maps:
  "\<not> (is_map v1 \<and> is_map v2) \<Longrightarrow> merge_store (Suc n) s v1 v2 = Some (s, v2)"
  by (cases v1; cases v2) auto

lemma combine_Some_iff:
  "(combine x y = Some C) = (\<exists>A B. x = Some A \<and> y = Some B \<and> A \<inter> B = {} \<and> C = A \<union> B)"
  by (cases x; cases y) auto

lemma foot_is_map: "foot s v t = Some A \<Longrightarrow> is_map v = (Kind t = KMap)"
  by (cases v; cases t) auto

lemma foot_null: "foot s v t = Some A \<Longrightarrow> (v = RNull) = (t = DNull)"
  by (cases v; cases t) auto

lemma foot_map_cases:
  "foot s (RMap a) t = Some A \<Longrightarrow>
     \<exists>m B. t = DMap m \<and> footm s (s a) m = Some B \<and> a \<notin> B \<and> A = insert a B"
  by (cases t) (auto split: option.splits if_splits)

lemma footm_keys: "footm s kv m = Some B \<Longrightarrow> map fst kv = map fst m"
proof (induction kv arbitrary: m B)
  case Nil
  then show ?case by (cases m) auto
next
  case (Cons p kv)
  obtain k v where p: "p = (k, v)" by (cases p)
  from Cons.prems p obtain k' t m' where m: "m = (k', t) # m'" by (cases m) auto
  from Cons.prems p m obtain B' where "k = k'" "footm s kv m' = Some B'"
    by (auto simp: combine_Some_iff split: if_splits)
  with Cons.IH p m show ?case by auto
qed

lemma footm_lookup:
  "footm s kv m = Some B \<Longrightarrow>
     \<exists>F. foot s (mapIndexS kv k) (mapIndex m k) = Some F \<and> F \<subseteq> B"
proof (induction kv arbitrary: m B)
  case Nil
  then show ?case by (cases m) (auto simp: mapIndexS_def mapIndex_def)
next
  case (Cons p kv)
  obtain k0 v where p: "p = (k0, v)" by (cases p)
  from Cons.prems p obtain k' t m' where m: "m = (k', t) # m'" by (cases m) auto
  from Cons.prems p m obtain F0 B' where
    k: "k0 = k'" and f: "foot s v t = Some F0" and r: "footm s kv m' = Some B'" and
    B: "B = F0 \<union> B'"
    by (auto simp: combine_Some_iff split: if_splits)
  show ?case
  proof (cases "k = k0")
    case True
    with p m k f B show ?thesis by (auto simp: mapIndexS_def mapIndex_def)
  next
    case False
    from Cons.IH [OF r] obtain F where
      "foot s (mapIndexS kv k) (mapIndex m' k) = Some F" "F \<subseteq> B'" by blast
    with False p m k B show ?thesis by (auto simp: mapIndexS_def mapIndex_def)
  qed
qed

lemma footm_lookup_disjoint:
  "footm s kv m = Some B \<Longrightarrow> k \<noteq> k' \<Longrightarrow>
   foot s (mapIndexS kv k) (mapIndex m k) = Some F \<Longrightarrow>
   foot s (mapIndexS kv k') (mapIndex m k') = Some F' \<Longrightarrow> F \<inter> F' = {}"
proof (induction kv arbitrary: m B)
  case Nil
  then show ?case by (cases m) (auto simp: mapIndexS_def mapIndex_def)
next
  case (Cons p kv)
  obtain k0 v where p: "p = (k0, v)" by (cases p)
  from Cons.prems(1) p obtain k1 t m' where m: "m = (k1, t) # m'" by (cases m) auto
  from Cons.prems(1) p m obtain F0 B' where
    k: "k0 = k1" and f: "foot s v t = Some F0" and r: "footm s kv m' = Some B'" and
    B: "B = F0 \<union> B'" and d: "F0 \<inter> B' = {}"
    by (auto simp: combine_Some_iff split: if_splits)
  from footm_lookup [OF r, of k] obtain G where
    G: "foot s (mapIndexS kv k) (mapIndex m' k) = Some G" "G \<subseteq> B'" by blast
  from footm_lookup [OF r, of k'] obtain G' where
    G': "foot s (mapIndexS kv k') (mapIndex m' k') = Some G'" "G' \<subseteq> B'" by blast
  show ?case
  proof (cases "k = k0")
    case True
    with Cons.prems(2) have "k' \<noteq> k0" by simp
    with True Cons.prems(3,4) p m k f G' d show ?thesis
      by (auto simp: mapIndexS_def mapIndex_def)
  next
    case False
    note nk = this
    show ?thesis
    proof (cases "k' = k0")
      case True
      with nk Cons.prems(3,4) p m k f G d show ?thesis
        by (auto simp: mapIndexS_def mapIndex_def)
    next
      case False
      with nk Cons.prems(3,4) p m k have
        "foot s (mapIndexS kv k) (mapIndex m' k) = Some F"
        "foot s (mapIndexS kv k') (mapIndex m' k') = Some F'"
        by (auto simp: mapIndexS_def mapIndex_def)
      from Cons.IH [OF r Cons.prems(2) this] show ?thesis .
    qed
  qed
qed

lemma foot_frame:
  "foot s v t = Some A \<Longrightarrow> (\<forall>a\<in>A. s' a = s a) \<Longrightarrow> foot s' v t = Some A"
  "footl s vs ts = Some A \<Longrightarrow> (\<forall>a\<in>A. s' a = s a) \<Longrightarrow> footl s' vs ts = Some A"
  "footm s kv m = Some A \<Longrightarrow> (\<forall>a\<in>A. s' a = s a) \<Longrightarrow> footm s' kv m = Some A"
proof (induction s v t and s vs ts and s kv m arbitrary: A and A and A
    rule: foot_footl_footm.induct)
  case (4 s a m)
  from "4.prems"(1) obtain B where
    B: "footm s (s a) m = Some B" "a \<notin> B" "A = insert a B"
    by (auto split: option.splits if_splits)
  with "4.prems"(2) have "s' a = s a" "\<forall>a\<in>B. s' a = s a" by auto
  with "4.IH" [OF B(1)] B show ?case by simp
next
  case (7 s v vs t ts)
  then show ?case by (auto simp: combine_Some_iff)
next
  case (10 s k v kv k' t m)
  then show ?case by (auto simp: combine_Some_iff split: if_splits)
qed (auto split: if_splits)


lemma footm_update:
  "footm s kv m = Some B \<Longrightarrow> foot s v t = Some U \<Longrightarrow> U \<inter> B = {} \<Longrightarrow>
     \<exists>B'. footm s (AList.update k v kv) (AList.update k t m) = Some B' \<and> B' \<subseteq> B \<union> U"
proof (induction kv arbitrary: m B)
  case Nil
  then show ?case by (cases m) (auto simp: combine_Some_iff)
next
  case (Cons p kv)
  obtain k0 v0 where p: "p = (k0, v0)" by (cases p)
  from Cons.prems(1) p obtain k1 t0 m' where m: "m = (k1, t0) # m'" by (cases m) auto
  from Cons.prems(1) p m obtain F0 B0 where
    k: "k0 = k1" and f: "foot s v0 t0 = Some F0" and r: "footm s kv m' = Some B0" and
    B: "B = F0 \<union> B0" and d: "F0 \<inter> B0 = {}"
    by (auto simp: combine_Some_iff split: if_splits)
  show ?case
  proof (cases "k0 = k")
    case True
    with p m k r Cons.prems(2,3) B show ?thesis
      by (auto simp: combine_Some_iff)
  next
    case False
    from Cons.prems(3) B have "U \<inter> B0 = {}" by auto
    from Cons.IH [OF r Cons.prems(2) this] obtain B' where
      B': "footm s (AList.update k v kv) (AList.update k t m') = Some B'" "B' \<subseteq> B0 \<union> U"
      by blast
    from Cons.prems(3) B d B'(2) have "F0 \<inter> B' = {}" by auto
    with False p m k f B' B show ?thesis
      by (auto simp: combine_Some_iff)
  qed
qed

lemma footm_delete:
  "footm s kv m = Some B \<Longrightarrow>
     \<exists>B'. footm s (AList.delete k kv) (AList.delete k m) = Some B' \<and> B' \<subseteq> B"
proof (induction kv arbitrary: m B)
  case Nil
  then show ?case by (cases m) auto
next
  case (Cons p kv)
  obtain k0 v0 where p: "p = (k0, v0)" by (cases p)
  from Cons.prems(1) p obtain k1 t0 m' where m: "m = (k1, t0) # m'" by (cases m) auto
  from Cons.prems(1) p m obtain F0 B0 where
    k: "k0 = k1" and f: "foot s v0 t0 = Some F0" and r: "footm s kv m' = Some B0" and
    B: "B = F0 \<union> B0" and d: "F0 \<inter> B0 = {}"
    by (auto simp: combine_Some_iff split: if_splits)
  from Cons.IH [OF r] obtain B' where
    B': "footm s (AList.delete k kv) (AList.delete k m') = Some B'" "B' \<subseteq> B0" by blast
  show ?case
  proof (cases "k0 = k")
    case True
    with p m k B' B show ?thesis by auto
  next
    case False
    from d B'(2) have "F0 \<inter> B' = {}" by auto
    with False p m k f B' B show ?thesis by (auto simp: combine_Some_iff)
  qed
qed

lemma footm_replace:
  "footm s kv m = Some B \<Longrightarrow> foot s (mapIndexS kv k) (mapIndex m k) = Some F \<Longrightarrow>
   map_of kv k = Some v \<Longrightarrow> (\<forall>a. a \<notin> F \<longrightarrow> s1 a = s a) \<Longrightarrow>
   foot s1 v t' = Some F' \<Longrightarrow> F' \<inter> (B - F) = {} \<Longrightarrow>
     \<exists>B'. footm s1 kv (AList.update k t' m) = Some B' \<and> B' \<subseteq> (B - F) \<union> F'"
proof (induction kv arbitrary: m B)
  case Nil
  then show ?case by simp
next
  case (Cons p kv)
  obtain k0 v0 where p: "p = (k0, v0)" by (cases p)
  from Cons.prems(1) p obtain k1 t0 m' where m: "m = (k1, t0) # m'" by (cases m) auto
  from Cons.prems(1) p m obtain F0 B0 where
    k: "k0 = k1" and f: "foot s v0 t0 = Some F0" and r: "footm s kv m' = Some B0" and
    B: "B = F0 \<union> B0" and d: "F0 \<inter> B0 = {}"
    by (auto simp: combine_Some_iff split: if_splits)
  show ?case
  proof (cases "k0 = k")
    case True
    with Cons.prems(2,3) p m k f have F: "F = F0" and v: "v0 = v"
      by (auto simp: mapIndexS_def mapIndex_def)
    from d F Cons.prems(4) have "\<forall>a\<in>B0. s1 a = s a" by auto
    from foot_frame(3) [OF r this] have r1: "footm s1 kv m' = Some B0" .
    from Cons.prems(6) B F d have "F' \<inter> B0 = {}" by auto
    with True p m k v r1 Cons.prems(5) B F d show ?thesis
      by (auto simp: combine_Some_iff)
  next
    case False
    with Cons.prems(2,3) p m k have
      F: "foot s (mapIndexS kv k) (mapIndex m' k) = Some F" and v: "map_of kv k = Some v"
      by (auto simp: mapIndexS_def mapIndex_def)
    from footm_lookup [OF r, of k] F have FB: "F \<subseteq> B0" by auto
    with d Cons.prems(4) have "\<forall>a\<in>F0. s1 a = s a" by auto
    from foot_frame(1) [OF f this] have f1: "foot s1 v0 t0 = Some F0" .
    from Cons.prems(6) B have "F' \<inter> (B0 - F) = {}" by auto
    from Cons.IH [OF r F v Cons.prems(4,5) this] obtain B' where
      B': "footm s1 kv (AList.update k t' m') = Some B'" "B' \<subseteq> (B0 - F) \<union> F'" by blast
    from Cons.prems(6) B d FB have "F0 \<inter> F' = {}" by auto
    with d B'(2) have "F0 \<inter> B' = {}" by auto
    with False p m k f1 B' B d FB show ?thesis
      by (auto simp: combine_Some_iff)
  qed
qed


lemma distinct_keys_mapIndex: "distinct_keysm m \<Longrightarrow> distinct_keys (mapIndex m k)"
  by (induction m) (auto simp: mapIndex_def)

lemma mdepth_mapIndex: "mdepth (mapIndex m k) \<le> mdepthm m"
  by (induction m) (auto simp: mapIndex_def)

lemma merge_not_maps: "\<not> (Kind t1 = KMap \<and> Kind t2 = KMap) \<Longrightarrow> merge t1 t2 = t2"
  by (cases t1; cases t2) simp_all

lemma mapIndexS_Some: "mapIndexS kv k = v \<Longrightarrow> v \<noteq> RNull \<Longrightarrow> map_of kv k = Some v"
  by (auto simp: mapIndexS_def split: option.splits)

lemma merge_step_ok:
  assumes IH: "\<And>s v1 v2 t1 t2 A1 A2.
      foot s v1 t1 = Some A1 \<Longrightarrow> foot s v2 t2 = Some A2 \<Longrightarrow> A1 \<inter> A2 = {} \<Longrightarrow>
      distinct_keys t2 \<Longrightarrow> mdepth t2 < n \<Longrightarrow>
      \<exists>s' A. merge_store n s v1 v2 = Some (s', if is_map v1 \<and> is_map v2 then v1 else v2) \<and>
             (\<forall>a. a \<notin> A1 \<longrightarrow> s' a = s a) \<and>
             foot s' (if is_map v1 \<and> is_map v2 then v1 else v2) (merge t1 t2) = Some A \<and>
             A \<subseteq> A1 \<union> A2"
    and b: "footm s (s a1) m1 = Some B" "a1 \<notin> B"
    and u: "footm s (s a2) m2 = Some B2" "a1 \<notin> B2"
    and dk: "distinct_keysm m2" and md: "mdepthm m2 < n"
    and F: "foot s (mapIndexS (s a1) k) (mapIndex m1 k) = Some F" and FB2: "F \<inter> B2 = {}"
    and U: "foot s (mapIndexS (s a2) k) (mapIndex m2 k) = Some U" and UB: "U \<inter> B = {}"
  shows "\<exists>s1 B1. merge_keys n s a1 a2 (k # ks) = merge_keys n s1 a1 a2 ks \<and>
           (\<forall>a. a \<notin> insert a1 F \<longrightarrow> s1 a = s a) \<and>
           (\<forall>k'. k' \<noteq> k \<longrightarrow> mapIndexS (s1 a1) k' = mapIndexS (s a1) k') \<and>
           footm s1 (s1 a1) (SetMapIndex m1 k (merge (mapIndex m1 k) (mapIndex m2 k))) = Some B1 \<and>
           B1 \<subseteq> B \<union> U"
proof -
  let ?e1 = "mapIndexS (s a1) k" and ?e2 = "mapIndexS (s a2) k"
  let ?t1 = "mapIndex m1 k" and ?t2 = "mapIndex m2 k"
  from footm_lookup [OF b(1), of k] F have FB: "F \<subseteq> B" by auto
  from footm_lookup [OF u(1), of k] U have UB2: "U \<subseteq> B2" by auto
  from FB b(2) have a1F: "a1 \<notin> F" by auto
  from UB2 u(2) have a1U: "a1 \<notin> U" by auto
  have k1: "is_map ?e1 = (Kind ?t1 = KMap)" using foot_is_map [OF F] .
  have k2: "is_map ?e2 = (Kind ?t2 = KMap)" using foot_is_map [OF U] .
  have n2: "(?e2 = RNull) = (?t2 = DNull)" using foot_null [OF U] .
  show ?thesis
  proof (cases "is_map ?e1 \<and> is_map ?e2")
    case True
    from FB2 UB2 have FU: "F \<inter> U = {}" by auto
    have "mdepth ?t2 < n" using mdepth_mapIndex [of m2 k] md by simp
    from IH [OF F U FU distinct_keys_mapIndex [OF dk] this] True obtain s1 A where
      ms: "merge_store n s ?e1 ?e2 = Some (s1, ?e1)" and
      fr: "\<forall>a. a \<notin> F \<longrightarrow> s1 a = s a" and
      ft: "foot s1 ?e1 (merge ?t1 ?t2) = Some A" and AFU: "A \<subseteq> F \<union> U"
      by auto
    from fr a1F have s1a1: "s1 a1 = s a1" by simp
    from True have ne: "?e1 \<noteq> RNull" by auto
    have mo: "map_of (s a1) k = Some ?e1" using mapIndexS_Some [OF refl ne] .
    then have triv: "SetMapIndexS (s a1) k ?e1 = s a1"
      using ne by (simp add: SetMapIndexS_def update_triv)
    have idem: "s1(a1 := s a1) = s1" using s1a1 by (simp add: fun_upd_idem)
    have step: "merge_keys n s a1 a2 (k # ks) = merge_keys n s1 a1 a2 ks"
      using True ms s1a1 triv idem by (simp add: Let_def)
    from True k2 have "?t2 \<noteq> DNull" by auto
    then have pure: "SetMapIndex m1 k (merge ?t1 ?t2) = AList.update k (merge ?t1 ?t2) m1"
      by (simp add: SetMapIndex_def IsValid_def merge_valid)
    from AFU UB have "A \<inter> (B - F) = {}" by auto
    from footm_replace [OF b(1) F mo fr ft this] obtain B1 where
      B1: "footm s1 (s a1) (AList.update k (merge ?t1 ?t2) m1) = Some B1"
        "B1 \<subseteq> (B - F) \<union> A" by blast
    from B1(2) AFU FB have "B1 \<subseteq> B \<union> U" by auto
    with step fr s1a1 B1(1) pure show ?thesis
      by (intro exI [of _ s1] exI [of _ B1]) auto
  next
    case False
    let ?s1 = "s(a1 := SetMapIndexS (s a1) k ?e2)"
    have step: "merge_keys n s a1 a2 (k # ks) = merge_keys n ?s1 a1 a2 ks"
      using False by (auto simp: Let_def)
    from False k1 k2 have pm: "merge ?t1 ?t2 = ?t2" by (intro merge_not_maps) auto
    have look: "\<forall>k'. k' \<noteq> k \<longrightarrow> mapIndexS (?s1 a1) k' = mapIndexS (s a1) k'"
      by (simp add: mapIndexS_SetMapIndexS)
    have fr: "\<forall>a. a \<notin> insert a1 F \<longrightarrow> ?s1 a = s a" by simp
    have "\<exists>B1. footm s (SetMapIndexS (s a1) k ?e2) (SetMapIndex m1 k ?t2) = Some B1 \<and> B1 \<subseteq> B \<union> U"
    proof (cases "?e2 = RNull")
      case True
      with n2 have "?t2 = DNull" by simp
      with True footm_delete [OF b(1), of k] show ?thesis
        by (auto simp: SetMapIndexS_def SetMapIndex_def IsValid_def)
    next
      case False
      with n2 have "?t2 \<noteq> DNull" by simp
      with False footm_update [OF b(1) U UB, of k] show ?thesis
        by (auto simp: SetMapIndexS_def SetMapIndex_def IsValid_def)
    qed
    then obtain B1 where
      B1: "footm s (SetMapIndexS (s a1) k ?e2) (SetMapIndex m1 k ?t2) = Some B1" "B1 \<subseteq> B \<union> U"
      by blast
    from B1(2) b(2) a1U have "a1 \<notin> B1" by auto
    then have agree: "\<forall>a\<in>B1. ?s1 a = s a" by auto
    have fr1: "footm ?s1 (SetMapIndexS (s a1) k ?e2) (SetMapIndex m1 k ?t2) = Some B1"
      by (rule foot_frame(3) [OF B1(1) agree])
    have at1: "?s1 a1 = SetMapIndexS (s a1) k ?e2" by simp
    have "footm ?s1 (?s1 a1) (SetMapIndex m1 k (merge ?t1 ?t2)) = Some B1"
      unfolding at1 pm by (rule fr1)
    with step look fr B1(2) show ?thesis
      by (intro exI [of _ ?s1] exI [of _ B1]) blast
  qed
qed


lemma merge_keys_ok:
  assumes IH: "\<And>s v1 v2 t1 t2 A1 A2.
      foot s v1 t1 = Some A1 \<Longrightarrow> foot s v2 t2 = Some A2 \<Longrightarrow> A1 \<inter> A2 = {} \<Longrightarrow>
      distinct_keys t2 \<Longrightarrow> mdepth t2 < n \<Longrightarrow>
      \<exists>s' A. merge_store n s v1 v2 = Some (s', if is_map v1 \<and> is_map v2 then v1 else v2) \<and>
             (\<forall>a. a \<notin> A1 \<longrightarrow> s' a = s a) \<and>
             foot s' (if is_map v1 \<and> is_map v2 then v1 else v2) (merge t1 t2) = Some A \<and>
             A \<subseteq> A1 \<union> A2"
  shows "footm s (s a1) m1 = Some B \<Longrightarrow> a1 \<notin> B \<Longrightarrow> a2 \<notin> B \<Longrightarrow>
    footm s (s a2) m2 = Some B2 \<Longrightarrow> a1 \<notin> B2 \<Longrightarrow> a2 \<notin> B2 \<Longrightarrow> a1 \<noteq> a2 \<Longrightarrow>
    distinct ks \<Longrightarrow> distinct_keysm m2 \<Longrightarrow> mdepthm m2 < n \<Longrightarrow>
    (\<forall>k\<in>set ks. \<forall>F. foot s (mapIndexS (s a1) k) (mapIndex m1 k) = Some F \<longrightarrow> F \<inter> B2 = {}) \<Longrightarrow>
    (\<forall>k\<in>set ks. \<forall>U. foot s (mapIndexS (s a2) k) (mapIndex m2 k) = Some U \<longrightarrow> U \<inter> B = {}) \<Longrightarrow>
    \<exists>s' B'. merge_keys n s a1 a2 ks = Some s' \<and>
       (\<forall>a. a \<notin> insert a1 B \<or> a \<in> insert a2 B2 \<longrightarrow> s' a = s a) \<and>
       footm s' (s' a1)
         (fold (\<lambda>key m. SetMapIndex m key (merge (mapIndex m key) (mapIndex m2 key))) ks m1) =
         Some B' \<and>
       B' \<subseteq> B \<union> B2 \<and> a1 \<notin> B'"
proof (induction ks arbitrary: s m1 B)
  case Nil
  then show ?case by auto
next
  case (Cons k ks)
  note b = Cons.prems(1) and a1B = Cons.prems(2) and a2B = Cons.prems(3)
    and u = Cons.prems(4) and a1B2 = Cons.prems(5) and a2B2 = Cons.prems(6)
    and ne = Cons.prems(7) and dks = Cons.prems(8) and dk = Cons.prems(9)
    and md = Cons.prems(10) and d1 = Cons.prems(11) and d2 = Cons.prems(12)
  from footm_lookup [OF b, of k] obtain F where
    F: "foot s (mapIndexS (s a1) k) (mapIndex m1 k) = Some F" and FB: "F \<subseteq> B" by blast
  from footm_lookup [OF u, of k] obtain U where
    U: "foot s (mapIndexS (s a2) k) (mapIndex m2 k) = Some U" and UB2: "U \<subseteq> B2" by blast
  from d1 F have FB2: "F \<inter> B2 = {}" by auto
  from d2 U have UB: "U \<inter> B = {}" by auto
  let ?m1' = "SetMapIndex m1 k (merge (mapIndex m1 k) (mapIndex m2 k))"
  from merge_step_ok [OF IH b a1B u a1B2 dk md F FB2 U UB, of ks] obtain s1 B1 where
    step: "merge_keys n s a1 a2 (k # ks) = merge_keys n s1 a1 a2 ks" and
    fr: "\<forall>a. a \<notin> insert a1 F \<longrightarrow> s1 a = s a" and
    look: "\<forall>k'. k' \<noteq> k \<longrightarrow> mapIndexS (s1 a1) k' = mapIndexS (s a1) k'" and
    b1: "footm s1 (s1 a1) ?m1' = Some B1" and B1: "B1 \<subseteq> B \<union> U"
    by blast
  from B1 a1B a1B2 UB2 have a1B1: "a1 \<notin> B1" by auto
  from B1 a2B a2B2 UB2 have a2B1: "a2 \<notin> B1" by auto
  from fr ne a2B FB have s1a2: "s1 a2 = s a2" by auto
  from fr a1B2 FB2 have agree2: "\<forall>a\<in>B2. s1 a = s a" by auto
  from foot_frame(3) [OF u agree2] s1a2 have u1: "footm s1 (s1 a2) m2 = Some B2" by simp
  from dks have dks': "distinct ks" and kks: "k \<notin> set ks" by auto
  have d1': "\<forall>k'\<in>set ks. \<forall>F'. foot s1 (mapIndexS (s1 a1) k') (mapIndex ?m1' k') = Some F' \<longrightarrow>
      F' \<inter> B2 = {}"
  proof (intro ballI allI impI)
    fix k' F' assume k': "k' \<in> set ks"
      and f': "foot s1 (mapIndexS (s1 a1) k') (mapIndex ?m1' k') = Some F'"
    from k' kks have nk: "k' \<noteq> k" by auto
    from footm_lookup [OF b, of k'] obtain G where
      G: "foot s (mapIndexS (s a1) k') (mapIndex m1 k') = Some G" and GB: "G \<subseteq> B" by blast
    from footm_lookup_disjoint [OF b nk G F] have GF: "G \<inter> F = {}" .
    from fr GF GB a1B have "\<forall>a\<in>G. s1 a = s a" by auto
    from foot_frame(1) [OF G this] have "foot s1 (mapIndexS (s a1) k') (mapIndex m1 k') = Some G" .
    with f' look nk have "F' = G" by (simp add: mapIndex_SetMapIndex_other)
    moreover from d1 k' G have "G \<inter> B2 = {}" by auto
    ultimately show "F' \<inter> B2 = {}" by simp
  qed
  have d2': "\<forall>k'\<in>set ks. \<forall>U'. foot s1 (mapIndexS (s1 a2) k') (mapIndex m2 k') = Some U' \<longrightarrow>
      U' \<inter> B1 = {}"
  proof (intro ballI allI impI)
    fix k' U' assume k': "k' \<in> set ks"
      and f': "foot s1 (mapIndexS (s1 a2) k') (mapIndex m2 k') = Some U'"
    from k' kks have nk: "k' \<noteq> k" by auto
    from footm_lookup [OF u, of k'] obtain G where
      G: "foot s (mapIndexS (s a2) k') (mapIndex m2 k') = Some G" and GB: "G \<subseteq> B2" by blast
    from footm_lookup_disjoint [OF u nk G U] have GU: "G \<inter> U = {}" .
    from agree2 GB have "\<forall>a\<in>G. s1 a = s a" by auto
    from foot_frame(1) [OF G this] have "foot s1 (mapIndexS (s a2) k') (mapIndex m2 k') = Some G" .
    with f' s1a2 have "U' = G" by simp
    moreover from d2 k' G have "G \<inter> B = {}" by auto
    ultimately show "U' \<inter> B1 = {}" using GU B1 by auto
  qed
  from Cons.IH [OF b1 a1B1 a2B1 u1 a1B2 a2B2 ne dks' dk md d1' d2'] obtain s' B' where
    r: "merge_keys n s1 a1 a2 ks = Some s'" and
    fr': "\<forall>a. a \<notin> insert a1 B1 \<or> a \<in> insert a2 B2 \<longrightarrow> s' a = s1 a" and
    b': "footm s' (s' a1)
           (fold (\<lambda>key m. SetMapIndex m key (merge (mapIndex m key) (mapIndex m2 key))) ks ?m1') =
         Some B'" and
    B': "B' \<subseteq> B1 \<union> B2" and a1B': "a1 \<notin> B'"
    by blast
  have frame: "\<forall>a. a \<notin> insert a1 B \<or> a \<in> insert a2 B2 \<longrightarrow> s' a = s a"
  proof (intro allI impI)
    fix a assume a: "a \<notin> insert a1 B \<or> a \<in> insert a2 B2"
    show "s' a = s a"
    proof (cases "a \<in> insert a2 B2")
      case True
      with fr' have "s' a = s1 a" by blast
      moreover from True s1a2 agree2 have "s1 a = s a" by auto
      ultimately show ?thesis by simp
    next
      case False
      with a have nb: "a \<notin> insert a1 B" by blast
      with False B1 UB2 have "a \<notin> insert a1 B1" by auto
      with fr' have "s' a = s1 a" by blast
      moreover from nb FB fr have "s1 a = s a" by auto
      ultimately show ?thesis by simp
    qed
  qed
  from B' B1 UB2 have "B' \<subseteq> B \<union> B2" by auto
  with step r frame b' a1B' show ?case by auto
qed

lemma merge_store_refines:
  "foot s v1 t1 = Some A1 \<Longrightarrow> foot s v2 t2 = Some A2 \<Longrightarrow> A1 \<inter> A2 = {} \<Longrightarrow>
   distinct_keys t2 \<Longrightarrow> mdepth t2 < n \<Longrightarrow>
     \<exists>s' A. merge_store n s v1 v2 = Some (s', if is_map v1 \<and> is_map v2 then v1 else v2) \<and>
            (\<forall>a. a \<notin> A1 \<longrightarrow> s' a = s a) \<and>
            foot s' (if is_map v1 \<and> is_map v2 then v1 else v2) (merge t1 t2) = Some A \<and>
            A \<subseteq> A1 \<union> A2"
proof (induction n arbitrary: s v1 v2 t1 t2 A1 A2)
  case 0
  then show ?case by simp
next
  case (Suc n)
  show ?case
  proof (cases "is_map v1 \<and> is_map v2")
    case False
    with foot_is_map [OF Suc.prems(1)] foot_is_map [OF Suc.prems(2)]
    have "merge t1 t2 = t2" by (intro merge_not_maps) auto
    with False Suc.prems(2) merge_store_not_maps [OF False, of n s] show ?thesis
      by auto
  next
    case True
    then obtain a1 a2 where v: "v1 = RMap a1" "v2 = RMap a2"
      by (cases v1; cases v2) auto
    from foot_map_cases [OF Suc.prems(1) [unfolded v]] obtain m1 B where
      t1: "t1 = DMap m1" and b: "footm s (s a1) m1 = Some B" and a1B: "a1 \<notin> B" and
      A1: "A1 = insert a1 B" by blast
    from foot_map_cases [OF Suc.prems(2) [unfolded v]] obtain m2 B2 where
      t2: "t2 = DMap m2" and u: "footm s (s a2) m2 = Some B2" and a2B2: "a2 \<notin> B2" and
      A2: "A2 = insert a2 B2" by blast
    from Suc.prems(3) A1 A2 have ne: "a1 \<noteq> a2" and a1B2: "a1 \<notin> B2" and a2B: "a2 \<notin> B"
      and BB2: "B \<inter> B2 = {}" by auto
    from Suc.prems(4) t2 have dm: "distinct (map fst m2)" and dk: "distinct_keysm m2" by auto
    from footm_keys [OF u] dm have dks: "distinct (map fst (s a2))" by simp
    from Suc.prems(5) t2 have md: "mdepthm m2 < n" by simp
    have d1: "\<forall>k\<in>set (map fst (s a2)). \<forall>F.
        foot s (mapIndexS (s a1) k) (mapIndex m1 k) = Some F \<longrightarrow> F \<inter> B2 = {}"
    proof (intro ballI allI impI)
      fix k F assume f: "foot s (mapIndexS (s a1) k) (mapIndex m1 k) = Some F"
      from footm_lookup [OF b, of k] f have "F \<subseteq> B" by auto
      with BB2 show "F \<inter> B2 = {}" by auto
    qed
    have d2: "\<forall>k\<in>set (map fst (s a2)). \<forall>U.
        foot s (mapIndexS (s a2) k) (mapIndex m2 k) = Some U \<longrightarrow> U \<inter> B = {}"
    proof (intro ballI allI impI)
      fix k U assume f: "foot s (mapIndexS (s a2) k) (mapIndex m2 k) = Some U"
      from footm_lookup [OF u, of k] f have "U \<subseteq> B2" by auto
      with BB2 show "U \<inter> B = {}" by auto
    qed
    from merge_keys_ok [OF Suc.IH b a1B a2B u a1B2 a2B2 ne dks dk md d1 d2]
    obtain s' B' where
      r: "merge_keys n s a1 a2 (map fst (s a2)) = Some s'" and
      fr: "\<forall>a. a \<notin> insert a1 B \<or> a \<in> insert a2 B2 \<longrightarrow> s' a = s a" and
      b': "footm s' (s' a1)
             (fold (\<lambda>key m. SetMapIndex m key (merge (mapIndex m key) (mapIndex m2 key)))
                (map fst (s a2)) m1) = Some B'" and
      B': "B' \<subseteq> B \<union> B2" and a1B': "a1 \<notin> B'"
      by blast
    have keys: "map fst (s a2) = MapKeys m2" using footm_keys [OF u] by (simp add: MapKeys_def)
    have "foot s' (RMap a1) (merge t1 t2) = Some (insert a1 B')"
      using b' a1B' unfolding t1 t2 merge_maps_unfold keys by simp
    moreover have "insert a1 B' \<subseteq> A1 \<union> A2" using B' A1 A2 by auto
    moreover have "merge_store (Suc n) s v1 v2 = Some (s', RMap a1)" using r v by simp
    moreover have "\<forall>a. a \<notin> A1 \<longrightarrow> s' a = s a" using fr A1 by auto
    ultimately show ?thesis using True v by auto
  qed
qed

text \<open>
  C8, as the code has it.  For two Mappings, \<open>merge\<close> returns the base's own reference:
  no new tree is made.  When no key is bound to a Mapping on both sides, the call
  returns, only the base's map object is changed, and afterwards it binds every key of
  update to update's value (a Mapping of update is then shared, not copied) and every
  other key as before.  When an operand is not a Mapping the result is update and the
  store is unchanged.  And for two Mapping trees held independently (tree-shaped values
  \<open>t1\<close> at \<open>a1\<close> and \<open>t2\<close> at \<open>a2\<close> with no map object in common): with fuel beyond the
  depth of update the call returns the base's reference, it has written only to map
  objects of base, and the base, read through its own reference, now is the merged
  tree \<open>merge t1 t2\<close>, made of map objects of base and of update.
\<close>

theorem merge_in_place:
  "(merge_store (Suc n) s (RMap a1) (RMap a2) = Some (s', r) \<longrightarrow> r = RMap a1) \<and>
   (\<not> (is_map v1 \<and> is_map v2) \<longrightarrow> merge_store (Suc n) s v1 v2 = Some (s, v2)) \<and>
   (a1 \<noteq> a2 \<and> distinct (map fst (s a2)) \<and>
    (\<forall>k\<in>set (map fst (s a2)). \<not> (is_map (mapIndexS (s a1) k) \<and> is_map (mapIndexS (s a2) k))) \<longrightarrow>
      (\<exists>t. merge_store (Suc n) s (RMap a1) (RMap a2) = Some (t, RMap a1) \<and>
           (\<forall>a. a \<noteq> a1 \<longrightarrow> t a = s a) \<and>
           (\<forall>k\<in>set (map fst (s a2)). mapIndexS (t a1) k = mapIndexS (s a2) k) \<and>
           (\<forall>k. k \<notin> set (map fst (s a2)) \<longrightarrow> mapIndexS (t a1) k = mapIndexS (s a1) k))) \<and>
   (foot s (RMap a1) t1 = Some A1 \<and> foot s (RMap a2) t2 = Some A2 \<and> A1 \<inter> A2 = {} \<and>
    distinct_keys t2 \<and> mdepth t2 < fuel \<longrightarrow>
      (\<exists>t A. merge_store fuel s (RMap a1) (RMap a2) = Some (t, RMap a1) \<and>
             (\<forall>a. a \<notin> A1 \<longrightarrow> t a = s a) \<and>
             foot t (RMap a1) (merge t1 t2) = Some A \<and> A \<subseteq> A1 \<union> A2))"
proof (intro conjI impI)
  assume "merge_store (Suc n) s (RMap a1) (RMap a2) = Some (s', r)"
  then show "r = RMap a1" by (rule merge_store_ref)
next
  assume "\<not> (is_map v1 \<and> is_map v2)"
  then show "merge_store (Suc n) s v1 v2 = Some (s, v2)" by (rule merge_store_not_maps)
next
  assume a: "a1 \<noteq> a2 \<and> distinct (map fst (s a2)) \<and>
    (\<forall>k\<in>set (map fst (s a2)). \<not> (is_map (mapIndexS (s a1) k) \<and> is_map (mapIndexS (s a2) k)))"
  let ?t = "s(a1 := fold (\<lambda>k m. SetMapIndexS m k (mapIndexS (s a2) k)) (map fst (s a2)) (s a1))"
  from a have "merge_keys n s a1 a2 (map fst (s a2)) = Some ?t"
    by (intro merge_keys_flat) auto
  then have "merge_store (Suc n) s (RMap a1) (RMap a2) = Some (?t, RMap a1)" by simp
  moreover have "\<forall>a. a \<noteq> a1 \<longrightarrow> ?t a = s a" by simp
  moreover have "\<forall>k\<in>set (map fst (s a2)). mapIndexS (?t a1) k = mapIndexS (s a2) k"
    by (simp add: mapIndexS_fold)
  moreover have "\<forall>k. k \<notin> set (map fst (s a2)) \<longrightarrow> mapIndexS (?t a1) k = mapIndexS (s a1) k"
    by (simp add: mapIndexS_fold)
  ultimately show "\<exists>t. merge_store (Suc n) s (RMap a1) (RMap a2) = Some (t, RMap a1) \<and>
           (\<forall>a. a \<noteq> a1 \<longrightarrow> t a = s a) \<and>
           (\<forall>k\<in>set (map fst (s a2)). mapIndexS (t a1) k = mapIndexS (s a2) k) \<and>
           (\<forall>k. k \<notin> set (map fst (s a2)) \<longrightarrow> mapIndexS (t a1) k = mapIndexS (s a1) k)"
    by blast
next
  assume "foot s (RMap a1) t1 = Some A1 \<and> foot s (RMap a2) t2 = Some A2 \<and> A1 \<inter> A2 = {} \<and>
    distinct_keys t2 \<and> mdepth t2 < fuel"
  with merge_store_refines [of s "RMap a1" t1 A1 "RMap a2" t2 A2 fuel]
  show "\<exists>t A. merge_store fuel s (RMap a1) (RMap a2) = Some (t, RMap a1) \<and>
             (\<forall>a. a \<notin> A1 \<longrightarrow> t a = s a) \<and>
             foot t (RMap a1) (merge t1 t2) = Some A \<and> A \<subseteq> A1 \<union> A2"
    by simp
qed

theorem merge_in_place_witness:
  "(1::nat) \<noteq> 2 \<and> distinct (map fst (example_store 2)) \<and>
   \<not> (is_map (RScalar (SInt 1)) \<and> is_map (RMap 2)) \<and>
   merge_store (Suc 0) example_store (RScalar (SInt 1)) (RMap 2) = Some (example_store, RMap 2) \<and>
   (\<exists>t. merge_store (Suc 0) example_store (RMap 3) (RMap 4) = Some (t, RMap 3) \<and>
        (\<forall>a. a \<noteq> 3 \<longrightarrow> t a = example_store a) \<and>
        (\<forall>k\<in>set (map fst (example_store 4)). mapIndexS (t 3) k = mapIndexS (example_store 4) k) \<and>
        (\<forall>k. k \<notin> set (map fst (example_store 4)) \<longrightarrow>
           mapIndexS (t 3) k = mapIndexS (example_store 3) k)) \<and>
   foot example_store (RMap 1)
     (DMap [(''a'', DMap [(''b'', DInt 1), (''c'', DInt 2)]), (''d'', DInt 3)]) = Some {1, 3} \<and>
   foot example_store (RMap 2)
     (DMap [(''a'', DMap [(''c'', DInt 4), (''e'', DInt 5)]), (''d'', DInt 30)]) = Some {2, 4} \<and>
   (\<exists>t A. merge_store 3 example_store (RMap 1) (RMap 2) = Some (t, RMap 1) \<and>
        (\<forall>a. a \<notin> {1, 3} \<longrightarrow> t a = example_store a) \<and>
        foot t (RMap 1)
          (merge (DMap [(''a'', DMap [(''b'', DInt 1), (''c'', DInt 2)]), (''d'', DInt 3)])
                 (DMap [(''a'', DMap [(''c'', DInt 4), (''e'', DInt 5)]), (''d'', DInt 30)])) =
          Some A \<and>
        A \<subseteq> {1, 3} \<union> {2, 4})"
proof -
  have h2: "\<not> (is_map (RScalar (SInt 1)) \<and> is_map (RMap 2))" by simp
  have h3: "(3::nat) \<noteq> 4 \<and> distinct (map fst (example_store 4)) \<and>
    (\<forall>k\<in>set (map fst (example_store 4)).
       \<not> (is_map (mapIndexS (example_store 3) k) \<and> is_map (mapIndexS (example_store 4) k)))"
    by (simp add: example_store_def mapIndexS_def)
  have h4: "foot example_store (RMap 1)
       (DMap [(''a'', DMap [(''b'', DInt 1), (''c'', DInt 2)]), (''d'', DInt 3)]) = Some {1, 3} \<and>
     foot example_store (RMap 2)
       (DMap [(''a'', DMap [(''c'', DInt 4), (''e'', DInt 5)]), (''d'', DInt 30)]) = Some {2, 4} \<and>
     {1, 3} \<inter> {2, 4} = ({} :: nat set) \<and>
     distinct_keys (DMap [(''a'', DMap [(''c'', DInt 4), (''e'', DInt 5)]), (''d'', DInt 30)]) \<and>
     mdepth (DMap [(''a'', DMap [(''c'', DInt 4), (''e'', DInt 5)]), (''d'', DInt 30)]) < 3"
    by (simp add: example_store_def insert_commute)
  have d: "distinct (map fst (example_store 2))" by (simp add: example_store_def)
  note t2 = merge_in_place [THEN conjunct2, THEN conjunct1, rule_format, OF h2]
  note t3 = merge_in_place [THEN conjunct2, THEN conjunct2, THEN conjunct1, rule_format, OF h3]
  note t4 = merge_in_place [THEN conjunct2, THEN conjunct2, THEN conjunct2, rule_format, OF h4]
  from t2 [of 0 example_store] t3 [of 0] t4 d h4 show ?thesis by simp
qed

text \<open>
  C8 as stated fails.  After merging update (at address 2) into base (at address 1),
  the map objects of base, read at their own addresses 1 and 3, hold update's values
  30, 4 and 5, and the result is the reference to address 1.
\<close>

theorem merge_mutates_base_counterexample:
  "example_store 1 = [(''a'', RMap 3), (''d'', RScalar (SInt 3))] \<and>
   example_store 3 = [(''b'', RScalar (SInt 1)), (''c'', RScalar (SInt 2))] \<and>
   map_option (\<lambda>(t, r). (r, t 1, t 3)) (merge_store 2 example_store (RMap 1) (RMap 2)) =
     Some (RMap 1,
           [(''a'', RMap 3), (''d'', RScalar (SInt 30))],
           [(''b'', RScalar (SInt 1)), (''c'', RScalar (SInt 4)), (''e'', RScalar (SInt 5))])"
  by (simp add: example_store_def numeral_2_eq_2 mapIndexS_def SetMapIndexS_def Let_def)

end
